theory Spec2Isabelle
  imports Complex_Main
begin

section \<open>Errors, responses and stored data\<close>

text \<open>
  A thrown JavaScript value is an object read through its \<open>name\<close>, \<open>message\<close>, \<open>status\<close>
  and \<open>code\<close> properties. \<open>status = None\<close> stands for a missing property; an empty
  string stands for a missing or falsy string property.
\<close>

datatype js_error = JsError (name: string) (message: string) (status: "int option") (code: string)

text \<open>\<open>new Error(msg)\<close> and \<open>new APIError(message, status, code, details)\<close>.\<close>

definition Error :: "string \<Rightarrow> js_error" where
  "Error msg = JsError ''Error'' msg None []"

definition APIError :: "string \<Rightarrow> int \<Rightarrow> string \<Rightarrow> js_error" where
  "APIError msg st cd = JsError ''APIError'' msg (Some st) cd"

text \<open>The value thrown by \<open>CircuitBreaker.execute\<close> while the breaker is OPEN.\<close>

definition circuit_open_error :: js_error where
  "circuit_open_error = Error ''Circuit breaker is OPEN - service unavailable''"

text \<open>
  A parsed JSON body, reduced to the properties the client reads: \<open>message\<close> and \<open>code\<close> of an
  error body, \<open>token\<close> and \<open>refreshToken\<close> of a refresh body, and the rest as opaque text.
\<close>

record json =
  jmessage :: string
  jcode :: string
  jtoken :: string
  jrefreshToken :: string
  jtext :: string

text \<open>
  What \<open>response.json()\<close> resolves to: the value \<open>null\<close>, on which reading a property
  throws, or a value on which it does not. A number, a string, a boolean or an array
  reads as an object without the properties above.
\<close>

datatype json_value = JsonNull | JsonObject json

text \<open>A \<open>Response\<close>: \<open>body = None\<close> when \<open>response.json()\<close> rejects.\<close>

record Response =
  http_status :: nat
  statusText :: string
  body :: "json_value option"

definition ok :: "Response \<Rightarrow> bool" where
  "ok r = (200 \<le> http_status r \<and> http_status r \<le> 299)"

text \<open>
  What \<open>await fetch(...)\<close> yields: a response, a rejection with a \<open>TypeError\<close> (network
  failure) or a rejection with an \<open>AbortError\<close> (the per-attempt abort timer fired first).
\<close>

datatype fetch_outcome = Responds Response | NetworkError string | Aborted

record user =
  token :: string
  refreshToken :: string

section \<open>Circuit breaker\<close>

datatype cb_state = CLOSED | OPEN | HALF_OPEN

record CircuitBreaker =
  threshold :: nat
  timeout :: int
  monitoringPeriod :: int
  failureCount :: nat
  lastFailureTime :: "int option"
  state :: cb_state
  nextAttempt :: int

text \<open>The constructor; \<open>now\<close> is the value of \<open>Date.now()\<close>.\<close>

definition new_CircuitBreaker :: "nat \<Rightarrow> int \<Rightarrow> int \<Rightarrow> int \<Rightarrow> CircuitBreaker" where
  "new_CircuitBreaker th tmo period now =
     \<lparr>threshold = th, timeout = tmo, monitoringPeriod = period, failureCount = 0,
      lastFailureTime = None, state = CLOSED, nextAttempt = now\<rparr>"

text \<open>The callback that \<open>startMonitoring\<close> hands to \<open>setInterval\<close>.\<close>

definition monitor_tick :: "int \<Rightarrow> CircuitBreaker \<Rightarrow> CircuitBreaker" where
  "monitor_tick now cb =
     (if state cb = OPEN \<and> now \<ge> nextAttempt cb then cb\<lparr>state := HALF_OPEN\<rparr> else cb)"

definition onSuccess :: "CircuitBreaker \<Rightarrow> CircuitBreaker" where
  "onSuccess cb =
     (let cb1 = cb\<lparr>failureCount := 0\<rparr>
      in if state cb1 = HALF_OPEN then cb1\<lparr>state := CLOSED\<rparr> else cb1)"

text \<open>Both reads of \<open>Date.now()\<close> in \<open>onFailure\<close> give \<open>now\<close>.\<close>

definition onFailure :: "int \<Rightarrow> CircuitBreaker \<Rightarrow> CircuitBreaker" where
  "onFailure now cb =
     (let cb1 = cb\<lparr>failureCount := failureCount cb + 1, lastFailureTime := Some now\<rparr>
      in if failureCount cb1 \<ge> threshold cb1
         then cb1\<lparr>state := OPEN, nextAttempt := now + timeout cb1\<rparr>
         else cb1)"

section \<open>Metrics\<close>

text \<open>
  A duration is \<open>None\<close> when the subtraction \<open>Date.now() - config._startTime\<close> meets an
  undefined start time (NaN).
\<close>

record metrics =
  totalRequests :: nat
  successfulRequests :: nat
  failedRequests :: nat
  averageResponseTime :: "real option"
  requestTimes :: "int option list"

definition initial_metrics :: metrics where
  "initial_metrics =
     \<lparr>totalRequests = 0, successfulRequests = 0, failedRequests = 0,
      averageResponseTime = Some 0, requestTimes = []\<rparr>"

text \<open>\<open>requestTimes.reduce((a, b) => a + b, 0)\<close>: one NaN makes the sum NaN.\<close>

fun sum_durations :: "int option list \<Rightarrow> int option" where
  "sum_durations [] = Some 0"
| "sum_durations (None # ds) = None"
| "sum_durations (Some d # ds) = (case sum_durations ds of None \<Rightarrow> None | Some s \<Rightarrow> Some (d + s))"

definition average :: "int option list \<Rightarrow> real option" where
  "average ds =
     (case sum_durations ds of
        None \<Rightarrow> None
      | Some s \<Rightarrow> if ds = [] then None else Some (real_of_int s / real (length ds)))"

definition updateMetrics :: "bool \<Rightarrow> int option \<Rightarrow> metrics \<Rightarrow> metrics" where
  "updateMetrics success duration m =
     (let m1 = (if success then m\<lparr>successfulRequests := successfulRequests m + 1\<rparr>
                else m\<lparr>failedRequests := failedRequests m + 1\<rparr>);
          pushed = requestTimes m1 @ [duration];
          window = (if length pushed > 100 then tl pushed else pushed)
      in m1\<lparr>requestTimes := window, averageResponseTime := average window\<rparr>)"

section \<open>The world the client runs in\<close>

text \<open>
  Breaker objects live in a heap of references, and the client's \<open>circuitBreakers\<close> map
  holds references, so that a call nested inside an operation meets the same object.
  The network, the random generator and the passing of time are oracles: \<open>net n url\<close> is
  the latency and the outcome of the \<open>n\<close>-th \<open>fetch\<close> issued, \<open>random n\<close> the \<open>n\<close>-th value of
  \<open>Math.random()\<close>. The lists \<open>fetched\<close>, \<open>slept\<close> and \<open>emitted\<close> and the counters
  \<open>refreshes\<close> and \<open>requests\<close> record the calls made to \<open>fetch\<close>, \<open>sleep\<close>,
  \<open>EventBus.emit\<close>, \<open>refreshToken\<close> and \<open>request\<close>. Console and telemetry output is
  not recorded. A call that is made while another one is pending is a call made by the
  pending call's operation: an operation is any function on the world, and it may run
  other calls through the same breaker before it returns or throws. The client's own
  \<open>request\<close> is followed from its call to its result without another request in between.
\<close>

record world =
  clock :: int
  heap :: "nat \<Rightarrow> CircuitBreaker"
  circuitBreakers :: "string \<rightharpoonup> nat"
  client_metrics :: metrics
  storage_user :: "user option"
  storage_cart :: "string option"
  pathname :: string
  net :: "nat \<Rightarrow> string \<Rightarrow> nat \<times> fetch_outcome"
  fetched :: "string list"
  random :: "nat \<Rightarrow> real"
  draws :: nat
  slept :: "real list"
  emitted :: "string list"
  refreshes :: nat
  requests :: nat

type_synonym 'a result = "js_error + 'a"

type_synonym 'a operation = "world \<Rightarrow> 'a result \<times> world"

text \<open>
  \<open>CircuitBreaker.execute\<close> on the breaker object at reference \<open>this\<close>. The operation
  runs in the world and may itself reach the breaker; \<open>onSuccess\<close> and \<open>onFailure\<close> act
  on the object as the operation left it, at the time the operation settled.
\<close>

definition execute :: "nat \<Rightarrow> 'a operation \<Rightarrow> world \<Rightarrow> 'a result \<times> world" where
  "execute this operation w =
     (if state (heap w this) = OPEN then (Inl circuit_open_error, w)
      else case operation w of
             (Inr result, w1) \<Rightarrow>
               (Inr result, w1\<lparr>heap := (heap w1)(this := onSuccess (heap w1 this))\<rparr>)
           | (Inl error, w1) \<Rightarrow>
               (Inl error, w1\<lparr>heap := (heap w1)(this := onFailure (clock w1) (heap w1 this))\<rparr>))"

text \<open>The monitoring timer of the breaker at \<open>this\<close> fires.\<close>

definition timer_fires :: "nat \<Rightarrow> world \<Rightarrow> world" where
  "timer_fires this w = w\<lparr>heap := (heap w)(this := monitor_tick (clock w) (heap w this))\<rparr>"

text \<open>
  The breaker seen from outside, one event at a time: a call through \<open>execute\<close> whose
  operation would succeed, one whose operation would fail and settles at the given
  time, and the monitoring timer firing at the given time. A call met by an OPEN
  breaker is rejected and leaves the breaker as it is.
\<close>

datatype cb_event = CallSucceeds | CallFails int | TimerFires int

fun cb_step :: "cb_event \<Rightarrow> CircuitBreaker \<Rightarrow> CircuitBreaker" where
  "cb_step CallSucceeds cb = (if state cb = OPEN then cb else onSuccess cb)"
| "cb_step (CallFails now) cb = (if state cb = OPEN then cb else onFailure now cb)"
| "cb_step (TimerFires now) cb = monitor_tick now cb"

text \<open>
  The breakers a run of the program can hold: built by the constructor and stepped by
  events. \<open>execute\<close> tests the state before the operation runs and records the outcome
  after it, so while one call is pending others can pass, settle and change the breaker,
  and a request issued again from inside an operation goes through the same breaker:
  \<open>onSuccess\<close> and \<open>onFailure\<close> can meet a breaker in any state.
\<close>

inductive reachable :: "CircuitBreaker \<Rightarrow> bool" where
  constructed: "reachable (new_CircuitBreaker th tmo period now)"
| stepped: "reachable cb \<Longrightarrow> reachable (cb_step ev cb)"
| recorded: "reachable cb \<Longrightarrow> reachable (onFailure now cb)"
| settled: "reachable cb \<Longrightarrow> reachable (onSuccess cb)"

text \<open>
  The breakers of a run in which each call settles before the next event: the only
  outcome recorded on an OPEN breaker is the failure of an outer call whose request was
  issued again from inside it.
\<close>

inductive reachable_in_sequence :: "CircuitBreaker \<Rightarrow> bool" where
  constructed_seq: "reachable_in_sequence (new_CircuitBreaker th tmo period now)"
| stepped_seq: "reachable_in_sequence cb \<Longrightarrow> reachable_in_sequence (cb_step ev cb)"
| recorded_seq: "reachable_in_sequence cb \<Longrightarrow> reachable_in_sequence (onFailure now cb)"

section \<open>Retry classification and backoff\<close>

definition shouldRetry :: "js_error \<Rightarrow> bool" where
  "shouldRetry error =
     (name error = ''AbortError'' \<or>
      name error = ''TypeError'' \<or>
      (case status error of None \<Rightarrow> False | Some s \<Rightarrow> s \<ge> 500 \<and> s < 600) \<or>
      status error = Some 429)"

text \<open>
  \<open>calculateRetryDelay\<close>; \<open>rnd\<close> is the value of \<open>Math.random()\<close>, a number in \<open>[0, 1)\<close>.
  JavaScript numbers are read as real numbers.
\<close>

definition calculateRetryDelay :: "nat \<Rightarrow> real \<Rightarrow> real \<Rightarrow> real" where
  "calculateRetryDelay attempt baseDelay rnd =
     (let exponentialDelay = baseDelay * 2 ^ attempt;
          jitter = rnd * 1000
      in min (exponentialDelay + jitter) 30000)"

section \<open>Service routing\<close>

text \<open>\<open>String.prototype.includes\<close>.\<close>

primrec includes_str :: "string \<Rightarrow> string \<Rightarrow> bool" where
  "includes_str [] sub = (sub = [])"
| "includes_str (c # cs) sub = (take (length sub) (c # cs) = sub \<or> includes_str cs sub)"

definition getServiceFromUrl :: "string \<Rightarrow> string" where
  "getServiceFromUrl u =
     (if includes_str u ''/api/products'' \<or> includes_str u ''/products'' then ''products''
      else if includes_str u ''/api/auth'' \<or> includes_str u ''/auth'' then ''auth''
      else if includes_str u ''/api/orders'' \<or> includes_str u ''/orders'' then ''orders''
      else ''unknown'')"

section \<open>Request configuration and the built-in interceptors\<close>

text \<open>
  The request headers the client itself writes. \<open>X_Request_ID\<close> keeps the two values
  \<open>generateRequestId\<close> builds the identifier from: \<open>Date.now()\<close> and \<open>Math.random()\<close>.
\<close>

record headers =
  Authorization :: string
  X_Request_ID :: "(int \<times> real) option"

text \<open>
  A request configuration. \<open>None\<close> is an undefined property. \<open>retry_flag\<close> is \<open>_retry\<close> and
  \<open>startTime\<close> is \<open>_startTime\<close>. The method, the payload and the timeout only shape the
  call to \<open>fetch\<close>, whose outcome is the oracle's, and are left out; the payload is
  one that \<open>JSON.stringify\<close> accepts. The copy that
  \<open>request\<close> makes of a configuration shares its headers object with the original;
  here each configuration has its own headers, which no outcome depends on.
\<close>

record config =
  url :: string
  retries :: "nat option"
  retryDelay :: "real option"
  headers :: "headers option"
  retry_flag :: bool
  startTime :: "int option"

definition maxRetries :: nat where
  "maxRetries = 3"

definition default_retryDelay :: real where
  "default_retryDelay = 1000"

definition retries_of :: "config \<Rightarrow> nat" where
  "retries_of c = (case retries c of None \<Rightarrow> maxRetries | Some n \<Rightarrow> n)"

definition retryDelay_of :: "config \<Rightarrow> real" where
  "retryDelay_of c = (case retryDelay c of None \<Rightarrow> default_retryDelay | Some d \<Rightarrow> d)"

text \<open>\<open>buildUnifiedApiUrl('AUTH_REFRESH')\<close>.\<close>

definition auth_refresh_url :: string where
  "auth_refresh_url = ''/api'' @ ''/auth/refresh''"

text \<open>Decimal digits of a number, for the template \<open>`HTTP ${response.status}`\<close>.\<close>

fun show_nat :: "nat \<Rightarrow> string" where
  "show_nat n =
     (if n < 10 then [char_of (48 + n)]
      else show_nat (n div 10) @ [char_of (48 + n mod 10)])"

declare show_nat.simps [simp del]

text \<open>The request interceptor: authentication header, request identifier, start time.\<close>

definition request_interceptor :: "config \<Rightarrow> world \<Rightarrow> config \<times> world" where
  "request_interceptor c w =
     (let h0 = (case headers c of None \<Rightarrow> \<lparr>Authorization = [], X_Request_ID = None\<rparr> | Some h \<Rightarrow> h);
          h1 = (case storage_user w of
                  None \<Rightarrow> h0
                | Some u \<Rightarrow> if token u \<noteq> [] then h0\<lparr>Authorization := ''Bearer '' @ token u\<rparr> else h0);
          h2 = h1\<lparr>X_Request_ID := Some (clock w, random w (draws w))\<rparr>
      in (c\<lparr>headers := Some h2, startTime := Some (clock w)\<rparr>, w\<lparr>draws := draws w + 1\<rparr>))"

text \<open>
  \<open>await fetch(url, ...)\<close>: the oracle is asked for the outcome of this call, the call is
  recorded and the latency passes.
\<close>

definition fetch :: "string \<Rightarrow> world \<Rightarrow> Response result \<times> world" where
  "fetch u w =
     (let (latency, outcome) = net w (length (fetched w)) u;
          w1 = w\<lparr>fetched := fetched w @ [u], clock := clock w + int latency\<rparr>
      in case outcome of
           Responds r \<Rightarrow> (Inr r, w1)
         | NetworkError m \<Rightarrow> (Inl (JsError ''TypeError'' m None []), w1)
         | Aborted \<Rightarrow> (Inl (JsError ''AbortError'' ''The operation was aborted.'' None []), w1))"

definition parseErrorResponse :: "Response \<Rightarrow> json_value" where
  "parseErrorResponse r =
     (case body r of
        Some j \<Rightarrow> j
      | None \<Rightarrow> JsonObject
                 \<lparr>jmessage = (if statusText r \<noteq> [] then statusText r else ''Unknown error''),
                  jcode = ''UNKNOWN_ERROR'', jtoken = [], jrefreshToken = [], jtext = []\<rparr>)"

text \<open>
  Reading \<open>errorData.message\<close> in \<open>executeRequest\<close> and \<open>data.token\<close> in \<open>refreshToken\<close>
  throws a \<open>TypeError\<close> when the parsed body is \<open>null\<close>.
\<close>

definition null_TypeError :: js_error where
  "null_TypeError = JsError ''TypeError'' ''Cannot read properties of null'' None []"

text \<open>
  Reading \<open>config.headers['X-Request-ID']\<close> in \<open>logRequest\<close> and \<open>logError\<close> throws a
  \<open>TypeError\<close> when \<open>config.headers\<close> is undefined.
\<close>

definition headers_TypeError :: js_error where
  "headers_TypeError = JsError ''TypeError'' ''Cannot read properties of undefined'' None []"

definition json_SyntaxError :: js_error where
  "json_SyntaxError = JsError ''SyntaxError'' ''Unexpected token in JSON'' None []"

text \<open>The success half of the response interceptor: metrics with the duration, then logging.\<close>

definition response_success_interceptor ::
  "json_value \<Rightarrow> config \<Rightarrow> world \<Rightarrow> json_value result \<times> world" where
  "response_success_interceptor response c w =
     (let duration = (case startTime c of None \<Rightarrow> None | Some t \<Rightarrow> Some (clock w - t));
          w1 = w\<lparr>client_metrics := updateMetrics True duration (client_metrics w)\<rparr>
      in case headers c of
           None \<Rightarrow> (Inl headers_TypeError, w1)
         | Some h \<Rightarrow> (Inr response, w1))"

text \<open>
  The error half of the response interceptor. It always throws: the error it was given,
  or the \<open>TypeError\<close> of \<open>logError\<close>. The value returned is what it throws.
\<close>

definition response_error_interceptor :: "js_error \<Rightarrow> config \<Rightarrow> world \<Rightarrow> js_error \<times> world" where
  "response_error_interceptor error c w =
     (let started = (case startTime c of None \<Rightarrow> clock w | Some t \<Rightarrow> if t = 0 then clock w else t);
          duration = clock w - started;
          w1 = w\<lparr>client_metrics := updateMetrics False (Some duration) (client_metrics w)\<rparr>
      in case headers c of
           None \<Rightarrow> (headers_TypeError, w1)
         | Some h \<Rightarrow> (error, w1))"

text \<open>
  The \<open>try\<close> block of one iteration of the loop in \<open>executeRequest\<close>: count the attempt,
  fetch, turn a response that is not ok into an \<open>APIError\<close> built from its parsed body
  (a body that parses to \<open>null\<close> throws a \<open>TypeError\<close> there instead), parse the body
  of an ok response, run the success interceptor.
\<close>

definition try_attempt :: "config \<Rightarrow> world \<Rightarrow> json_value result \<times> world" where
  "try_attempt c w =
     (let w1 = w\<lparr>client_metrics :=
                   (client_metrics w)\<lparr>totalRequests := totalRequests (client_metrics w) + 1\<rparr>\<rparr>
      in case fetch (url c) w1 of
           (Inl thrown, w2) \<Rightarrow> (Inl thrown, w2)
         | (Inr response, w2) \<Rightarrow>
             (if \<not> ok response then
                (case parseErrorResponse response of
                   JsonNull \<Rightarrow> (Inl null_TypeError, w2)
                 | JsonObject errorData \<Rightarrow>
                     (Inl (APIError
                             (if jmessage errorData \<noteq> [] then jmessage errorData
                              else ''HTTP '' @ show_nat (http_status response))
                             (int (http_status response))
                             (jcode errorData)), w2))
              else (case body response of
                      None \<Rightarrow> (Inl json_SyntaxError, w2)
                    | Some responseData \<Rightarrow> response_success_interceptor responseData c w2)))"

definition refreshToken_call :: "world \<Rightarrow> string result \<times> world" where
  "refreshToken_call w =
     (let w0 = w\<lparr>refreshes := refreshes w + 1\<rparr>
      in case storage_user w0 of
           None \<Rightarrow> (Inl (Error ''No refresh token available''), w0)
         | Some u \<Rightarrow>
             (if refreshToken u = [] then (Inl (Error ''No refresh token available''), w0)
              else (case fetch auth_refresh_url w0 of
                      (Inl thrown, w1) \<Rightarrow> (Inl thrown, w1)
                    | (Inr response, w1) \<Rightarrow>
                        (if \<not> ok response then (Inl (Error ''Token refresh failed''), w1)
                         else (case body response of
                                 None \<Rightarrow> (Inl json_SyntaxError, w1)
                               | Some JsonNull \<Rightarrow> (Inl null_TypeError, w1)
                               | Some (JsonObject data) \<Rightarrow>
                                   (Inr (jtoken data),
                                    w1\<lparr>storage_user :=
                                         Some (u\<lparr>token := jtoken data,
                                                 refreshToken :=
                                                   (if jrefreshToken data \<noteq> [] then jrefreshToken data
                                                    else refreshToken u)\<rparr>)\<rparr>))))))"

definition handleAuthenticationFailure :: "world \<Rightarrow> world" where
  "handleAuthenticationFailure w =
     w\<lparr>storage_user := None, storage_cart := None,
       emitted := emitted w @ [''auth:failure''],
       pathname := (if \<not> includes_str (pathname w) ''login'' then ''/login'' else pathname w)\<rparr>"

text \<open>\<open>await this.sleep(delay)\<close>.\<close>

definition sleep :: "real \<Rightarrow> world \<Rightarrow> world" where
  "sleep ms w = w\<lparr>slept := slept w @ [ms], clock := clock w + \<lceil>ms\<rceil>\<rparr>"

section \<open>The client: request, executeRequest and the retry loop\<close>

text \<open>
  \<open>request\<close> applies the request interceptor to a copy of the configuration, looks the
  breaker of the service up and runs \<open>executeRequest\<close> through it, or directly when the
  service has none. \<open>attempt_loop c attempt lastError\<close> is the \<open>for\<close> loop of
  \<open>executeRequest\<close> from the given attempt on. In its \<open>catch\<close> block the error half of
  the response interceptor runs first, then the error interceptor: on a 401 with
  \<open>_retry\<close> unset it refreshes the token, sets \<open>_retry\<close> on the configuration object the
  loop holds and calls \<open>request\<close> again; when the refresh throws it invalidates the
  session and rethrows. The retry decision reads the error first caught; the error thrown
  in the end is the last one an interceptor threw.
\<close>

function request :: "config \<Rightarrow> world \<Rightarrow> json_value result \<times> world"
  and executeRequest :: "config \<Rightarrow> world \<Rightarrow> json_value result \<times> world"
  and attempt_loop ::
    "config \<Rightarrow> nat \<Rightarrow> js_error option \<Rightarrow> world \<Rightarrow> json_value result \<times> world"
where
  "request c w =
     (case request_interceptor c (w\<lparr>requests := requests w + 1\<rparr>) of
        (processedConfig, w1) \<Rightarrow>
          (case circuitBreakers w1 (getServiceFromUrl (url processedConfig)) of
             Some circuitBreaker \<Rightarrow> execute circuitBreaker (executeRequest processedConfig) w1
           | None \<Rightarrow> executeRequest processedConfig w1))"
| "executeRequest c w = attempt_loop c 0 None w"
| "attempt_loop c attempt lastError w =
     (if attempt \<le> retries_of c then
        (case try_attempt c w of
           (Inr processedResponse, w1) \<Rightarrow> (Inr processedResponse, w1)
         | (Inl error, w1) \<Rightarrow>
             (case response_error_interceptor error c w1 of
                (lastError1, w2) \<Rightarrow>
                  (case (if status error = Some 401 \<and> \<not> retry_flag c then
                           (case refreshToken_call w2 of
                              (Inl refreshError, w3) \<Rightarrow>
                                (Inl refreshError, c, handleAuthenticationFailure w3)
                            | (Inr newToken, w3) \<Rightarrow>
                                (case request (c\<lparr>retry_flag := True\<rparr>) w3 of
                                   (reissued, w4) \<Rightarrow> (reissued, c\<lparr>retry_flag := True\<rparr>, w4)))
                         else (Inl error, c, w2)) of
                     (Inr processedResponse, c1, w5) \<Rightarrow> (Inr processedResponse, w5)
                   | (Inl interceptorError, c1, w5) \<Rightarrow>
                       if attempt < retries_of c \<and> shouldRetry error then
                         (let delay = calculateRetryDelay attempt (retryDelay_of c) (random w5 (draws w5))
                          in attempt_loop c1 (attempt + 1) (Some interceptorError)
                               (sleep delay (w5\<lparr>draws := draws w5 + 1\<rparr>)))
                       else (Inl interceptorError, w5))))
      else (case lastError of
              Some e \<Rightarrow> (Inl e, w)
            | None \<Rightarrow> (Inl (JsError [] [] None []), w)))"
  by pat_completeness auto

text \<open>
  The recursion ends: the loop counts up to the retry budget, and \<open>request\<close> is entered
  again only from a configuration whose \<open>_retry\<close> is unset, with \<open>_retry\<close> set.
\<close>

lemma request_interceptor_keeps:
  "request_interceptor c w = (pc, w1) \<Longrightarrow>
     retry_flag pc = retry_flag c \<and> retries_of pc = retries_of c"
  by (auto simp: request_interceptor_def Let_def retries_of_def)

termination request
proof (relation "measure (\<lambda>x. case x of
           Inl (c, w) \<Rightarrow> (if retry_flag c then 0 else retries_of c + 4) + retries_of c + 3
         | Inr (Inl (c, w)) \<Rightarrow> (if retry_flag c then 0 else retries_of c + 4) + retries_of c + 2
         | Inr (Inr (c, attempt, le, w)) \<Rightarrow>
             (if retry_flag c then 0 else retries_of c + 4) + (retries_of c + 1 - attempt))",
       goal_cases)
  case 1
  show ?case by simp
next
  case (2 c w x y)
  from request_interceptor_keeps[OF 2(1)[symmetric]] show ?case by simp
next
  case (3 c w x y x2 xa)
  from request_interceptor_keeps[OF 3(1)[symmetric]] show ?case by simp
next
  case 4
  show ?case by simp
next
  case 5
  then show ?case by (simp add: retries_of_def)
next
  case (6 c attempt lastError w x y a xa ya xb yb aa xc yc xd)
  from 6(5,7) have "retries_of xc = retries_of c \<and> (retry_flag c \<longrightarrow> retry_flag xc)"
    by (auto simp: retries_of_def split: if_splits prod.splits sum.splits)
  with 6(8) show ?case by auto
qed

declare request.simps [simp del] executeRequest.simps [simp del] attempt_loop.simps [simp del]

text \<open>
  The constructor of the client: one breaker per known service, allocated at the
  references 0, 1 and 2, and fresh metrics.
\<close>

definition initializeCircuitBreakers :: "world \<Rightarrow> world" where
  "initializeCircuitBreakers w =
     fold (\<lambda>(ref, service) w.
             w\<lparr>heap := (heap w)(ref := new_CircuitBreaker 5 60000 10000 (clock w)),
               circuitBreakers := (circuitBreakers w)(service \<mapsto> ref)\<rparr>)
          (enumerate 0 [''products'', ''auth'', ''orders'']) w"

definition new_APIClient :: "world \<Rightarrow> world" where
  "new_APIClient w =
     (initializeCircuitBreakers (w\<lparr>circuitBreakers := Map.empty\<rparr>))\<lparr>client_metrics := initial_metrics\<rparr>"

section \<open>Calls in sequence and concrete worlds\<close>

text \<open>A sequence of calls through the breaker at \<open>this\<close>, one after the other.\<close>

definition execute_all :: "nat \<Rightarrow> 'a operation list \<Rightarrow> world \<Rightarrow> world" where
  "execute_all this ops w = fold (\<lambda>operation w. snd (execute this operation w)) ops w"

text \<open>
  An operation during whose wait other calls go through the breaker at \<open>this\<close> and
  settle, before it returns or throws itself: calls that overlap a pending call.
\<close>

definition while_pending :: "nat \<Rightarrow> 'a operation list \<Rightarrow> 'b operation \<Rightarrow> 'b operation" where
  "while_pending this others operation w = operation (execute_all this others w)"

text \<open>An operation that throws the given error, and one that returns the given value.\<close>

definition throwing :: "js_error \<Rightarrow> 'a operation" where
  "throwing e w = (Inl e, w)"

definition returning :: "'a \<Rightarrow> 'a operation" where
  "returning v w = (Inr v, w)"

text \<open>
  A world at time 0 in which nobody is logged in and every \<open>fetch\<close> answers at once
  with the given response; and the same world with the given breaker at every reference.
\<close>

definition answering :: "Response \<Rightarrow> world" where
  "answering r =
     \<lparr>clock = 0, heap = (\<lambda>ref. new_CircuitBreaker 5 60000 10000 0),
      circuitBreakers = Map.empty, client_metrics = initial_metrics,
      storage_user = None, storage_cart = None, pathname = ''/'',
      net = (\<lambda>n u. (0, Responds r)), fetched = [], random = (\<lambda>n. 0), draws = 0,
      slept = [], emitted = [], refreshes = 0, requests = 0\<rparr>"

definition response :: "nat \<Rightarrow> Response" where
  "response st = \<lparr>http_status = st, statusText = [], body = None\<rparr>"

definition world_with :: "CircuitBreaker \<Rightarrow> world" where
  "world_with cb = (answering (response 200))\<lparr>heap := (\<lambda>ref. cb)\<rparr>"

text \<open>A request for the product list with a retry budget of 2, as a caller builds it.\<close>

definition products_config :: config where
  "products_config = \<lparr>url = ''/api/products'', retries = Some 2, retryDelay = None,
     headers = None, retry_flag = False, startTime = None\<rparr>"

text \<open>
  A world in which a user with a refresh token is logged in, the refresh endpoint
  answers 200 with a new token and every other URL answers 401.
\<close>

definition refreshing_world :: world where
  "refreshing_world =
     (answering (response 401))
       \<lparr>storage_user := Some \<lparr>token = ''t0'', refreshToken = ''r0''\<rparr>,
        net := (\<lambda>n u. if u = auth_refresh_url
                       then (5, Responds ((response 200)
                              \<lparr>body := Some (JsonObject
                                        \<lparr>jmessage = [], jcode = [], jtoken = ''t1'',
                                         jrefreshToken = [], jtext = []\<rparr>)\<rparr>))
                       else (3, Responds (response 401)))\<rparr>"

text \<open>A request for the health endpoint, which belongs to no known service.\<close>

definition health_config :: config where
  "health_config = \<lparr>url = ''/health'', retries = Some 1, retryDelay = None,
     headers = None, retry_flag = False, startTime = None\<rparr>"

text \<open>A client whose breakers are all OPEN, with every \<open>fetch\<close> answered 503.\<close>

definition all_open_client :: world where
  "all_open_client =
     (new_APIClient (answering (response 503)))
       \<lparr>heap := (\<lambda>ref. cb_step (CallFails 0) (new_CircuitBreaker 1 60000 10000 0))\<rparr>"

section \<open>Properties of the circuit breaker\<close>

text \<open>What \<open>execute\<close> does in each of its three branches.\<close>

lemma execute_open:
  "state (heap w this) = OPEN \<Longrightarrow> execute this operation w = (Inl circuit_open_error, w)"
  by (simp add: execute_def)

lemma execute_success:
  "state (heap w this) \<noteq> OPEN \<Longrightarrow> operation w = (Inr v, w1) \<Longrightarrow>
     execute this operation w = (Inr v, w1\<lparr>heap := (heap w1)(this := onSuccess (heap w1 this))\<rparr>)"
  by (simp add: execute_def)

lemma execute_failure:
  "state (heap w this) \<noteq> OPEN \<Longrightarrow> operation w = (Inl e, w1) \<Longrightarrow>
     execute this operation w =
       (Inl e, w1\<lparr>heap := (heap w1)(this := onFailure (clock w1) (heap w1 this))\<rparr>)"
  by (simp add: execute_def)

text \<open>
  In a run in which each call settles before the next event, a breaker that is not
  CLOSED has counted at least \<open>threshold\<close> failures: the count is reset only by a
  success, and a success is then recorded only on a breaker that is not OPEN. With
  overlapping calls this fails: a success recorded on an OPEN breaker resets the count.
\<close>

lemma sequence_invariant:
  "reachable_in_sequence cb \<Longrightarrow> state cb \<noteq> CLOSED \<Longrightarrow> threshold cb \<le> failureCount cb"
proof (induction rule: reachable_in_sequence.induct)
  case (constructed_seq th tmo period now)
  then show ?case by (simp add: new_CircuitBreaker_def)
next
  case (stepped_seq cb ev)
  then show ?case
    by (cases ev; cases "state cb")
       (auto simp: onSuccess_def onFailure_def monitor_tick_def Let_def split: if_splits)
next
  case (recorded_seq cb now)
  then show ?case
    by (cases "state cb") (auto simp: onFailure_def Let_def split: if_splits)
qed

lemma reachable_in_sequence_reachable:
  "reachable_in_sequence cb \<Longrightarrow> reachable cb"
  by (induction rule: reachable_in_sequence.induct) (auto intro: reachable.intros)

text \<open>
  Failing calls that stay below the threshold leave the breaker CLOSED and are counted.
\<close>

lemma closed_failures:
  assumes "\<forall>operation \<in> set ops. \<forall>w. \<exists>e w1. operation w = (Inl e, w1) \<and> heap w1 this = heap w this"
    and "state (heap w this) = CLOSED"
    and "failureCount (heap w this) + length ops < threshold (heap w this)"
  shows "state (heap (execute_all this ops w) this) = CLOSED \<and>
         failureCount (heap (execute_all this ops w) this) = failureCount (heap w this) + length ops \<and>
         threshold (heap (execute_all this ops w) this) = threshold (heap w this)"
  using assms
proof (induction ops arbitrary: w)
  case Nil
  then show ?case by (simp add: execute_all_def)
next
  case (Cons operation ops)
  from Cons.prems(1) obtain e w1 where op: "operation w = (Inl e, w1)" "heap w1 this = heap w this"
    by (meson list.set_intros(1))
  let ?w2 = "snd (execute this operation w)"
  have ex: "?w2 = w1\<lparr>heap := (heap w1)(this := onFailure (clock w1) (heap w1 this))\<rparr>"
    using execute_failure[of w this operation e w1] op Cons.prems(2) by simp
  have st: "state (heap ?w2 this) = CLOSED" "failureCount (heap ?w2 this) = failureCount (heap w this) + 1"
     "threshold (heap ?w2 this) = threshold (heap w this)"
    using Cons.prems(2,3) op(2) by (simp_all add: ex onFailure_def Let_def)
  have "state (heap (execute_all this ops ?w2) this) = CLOSED \<and>
         failureCount (heap (execute_all this ops ?w2) this) = failureCount (heap ?w2 this) + length ops \<and>
         threshold (heap (execute_all this ops ?w2) this) = threshold (heap ?w2 this)"
    using Cons.prems(1,3) st by (intro Cons.IH) auto
  then show ?case using st by (simp add: execute_all_def)
qed

text \<open>
  C1, as the code has it. Take a breaker with a threshold of at least one, CLOSED and
  with no failure counted, and as many calls as the threshold, each with an operation
  that throws and does not touch the breaker. Before the last of them the breaker is
  still CLOSED; after it the breaker is OPEN, and whatever operation the next call
  brings, \<open>execute\<close> throws at once and returns the world as it found it, so the
  operation did not run. What it throws is a plain \<open>Error\<close> with the message
  \<open>Circuit breaker is OPEN - service unavailable\<close>; the code has no error class of its
  own for the rejection.
\<close>

theorem threshold_failures_open:
  assumes "0 < threshold (heap w this)"
    and "state (heap w this) = CLOSED"
    and "failureCount (heap w this) = 0"
    and "length ops = threshold (heap w this)"
    and "\<forall>operation \<in> set ops. \<forall>w. \<exists>e w1. operation w = (Inl e, w1) \<and> heap w1 this = heap w this"
  shows "(\<forall>k < length ops. state (heap (execute_all this (take k ops) w) this) = CLOSED) \<and>
         state (heap (execute_all this ops w) this) = OPEN \<and>
         (\<forall>next_operation.
            execute this next_operation (execute_all this ops w) =
              (Inl circuit_open_error, execute_all this ops w)) \<and>
         circuit_open_error = JsError ''Error'' ''Circuit breaker is OPEN - service unavailable'' None []"
proof -
  have before: "state (heap (execute_all this (take k ops) w) this) = CLOSED \<and>
         failureCount (heap (execute_all this (take k ops) w) this) = k \<and>
         threshold (heap (execute_all this (take k ops) w) this) = threshold (heap w this)"
    if "k < length ops" for k
  proof -
    have "\<forall>operation \<in> set (take k ops). \<forall>w. \<exists>e w1. operation w = (Inl e, w1) \<and> heap w1 this = heap w this"
      using assms(5) by (meson in_set_takeD)
    from closed_failures[OF this assms(2)] that assms(3,4) show ?thesis by simp
  qed
  obtain n where "threshold (heap w this) = Suc n"
    using assms(1) gr0_implies_Suc by blast
  with assms(4) have n: "length ops = Suc n" by simp
  then have ne: "ops \<noteq> []" by auto
  let ?w1 = "execute_all this (butlast ops) w"
  have bl: "butlast ops = take n ops" using n by (simp add: butlast_conv_take)
  have st1: "state (heap ?w1 this) = CLOSED" "failureCount (heap ?w1 this) = n"
    "threshold (heap ?w1 this) = Suc n"
    using before[of n] n assms(4) by (simp_all add: bl)
  have split: "execute_all this ops w = snd (execute this (last ops) ?w1)"
  proof -
    have "ops = butlast ops @ [last ops]" using ne by simp
    then have "execute_all this ops w = execute_all this (butlast ops @ [last ops]) w" by simp
    then show ?thesis by (simp add: execute_all_def)
  qed
  from assms(5) ne obtain e w2 where op: "last ops ?w1 = (Inl e, w2)" "heap w2 this = heap ?w1 this"
    by (meson last_in_set)
  have "state (heap (execute_all this ops w) this) = OPEN"
    using execute_failure[of ?w1 this "last ops" e w2] op st1
    by (simp add: split onFailure_def Let_def)
  then show ?thesis using before
    by (simp add: execute_open circuit_open_error_def Error_def)
qed


theorem threshold_failures_open_witness:
  "threshold (heap (world_with (new_CircuitBreaker 3 60000 10000 0)) 0) = 3 \<and>
   state (heap (execute_all 0 (replicate 3 (throwing (Error ''boom'') :: unit operation))
                  (world_with (new_CircuitBreaker 3 60000 10000 0))) 0) = OPEN \<and>
   fst (execute 0 (returning ())
          (execute_all 0 (replicate 3 (throwing (Error ''boom'') :: unit operation))
             (world_with (new_CircuitBreaker 3 60000 10000 0)))) = Inl circuit_open_error"
proof -
  let ?w = "world_with (new_CircuitBreaker 3 60000 10000 0)"
  let ?ops = "replicate 3 (throwing (Error ''boom'') :: unit operation)"
  have h1: "0 < threshold (heap ?w 0)" and h2: "state (heap ?w 0) = CLOSED"
    and h3: "failureCount (heap ?w 0) = 0" and h4: "length ?ops = threshold (heap ?w 0)"
    by (simp_all add: world_with_def new_CircuitBreaker_def)
  have h5: "\<forall>operation \<in> set ?ops. \<forall>w. \<exists>e w1. operation w = (Inl e, w1) \<and> heap w1 0 = heap w 0"
    by (simp add: throwing_def)
  note t = threshold_failures_open[OF h1 h2 h3 h4 h5]
  from t have a: "state (heap (execute_all 0 ?ops ?w) 0) = OPEN" by blast
  from t have b: "execute 0 (returning ()) (execute_all 0 ?ops ?w) =
      (Inl circuit_open_error, execute_all 0 ?ops ?w)" by blast
  have c: "threshold (heap ?w 0) = 3"
    by (simp add: world_with_def new_CircuitBreaker_def)
  show ?thesis by (intro conjI) (rule c, rule a, simp only: b fst_conv)
qed

text \<open>
  C1 as stated fails in two places. A breaker built with threshold 0 is CLOSED after
  its zero failures and lets the next call through. And the rejection is not a distinct
  error: a breaker with threshold 1 that has just opened throws the same value that a
  CLOSED breaker passes on from an operation throwing
  \<open>new Error('Circuit breaker is OPEN - service unavailable')\<close>, an object named
  \<open>Error\<close> without status or code.
\<close>

theorem circuit_open_error_counterexample:
  "state (heap (execute_all 0 ([] :: unit operation list)
                  (world_with (new_CircuitBreaker 0 60000 10000 0))) 0) = CLOSED \<and>
   fst (execute 0 (returning ()) (world_with (new_CircuitBreaker 0 60000 10000 0))) = Inr () \<and>
   fst (execute 0 (returning ())
          (execute_all 0 [throwing (Error ''boom'') :: unit operation]
             (world_with (new_CircuitBreaker 1 60000 10000 0)))) =
     Inl (JsError ''Error'' ''Circuit breaker is OPEN - service unavailable'' None []) \<and>
   fst (execute 0 (throwing (Error ''Circuit breaker is OPEN - service unavailable'') :: unit operation)
          (world_with (new_CircuitBreaker 1 60000 10000 0))) =
     Inl (JsError ''Error'' ''Circuit breaker is OPEN - service unavailable'' None [])"
  by (simp add: execute_all_def execute_def world_with_def new_CircuitBreaker_def throwing_def
      returning_def onFailure_def Let_def circuit_open_error_def Error_def)

text \<open>
  C2, as the code has it. \<open>execute\<close> never reads the clock: an OPEN breaker whose
  \<open>nextAttempt\<close> has passed still rejects every call until the monitoring timer fires.
  When the timer fires at such a time the breaker becomes HALF_OPEN. A call that finds
  the breaker HALF_OPEN, the first one or any other, runs its operation, returns or
  throws what the operation does, and records the outcome with \<open>onSuccess\<close> or
  \<open>onFailure\<close> on the breaker as the operation left it.
\<close>

theorem half_open_after_timer:
  assumes "state (heap w this) = OPEN" and "nextAttempt (heap w this) \<le> clock w"
  shows "execute this operation w = (Inl circuit_open_error, w) \<and>
         state (heap (timer_fires this w) this) = HALF_OPEN \<and>
         (\<forall>w'. state (heap w' this) = HALF_OPEN \<longrightarrow>
            fst (execute this operation w') = fst (operation w') \<and>
            snd (execute this operation w') =
              (snd (operation w'))
                \<lparr>heap := (heap (snd (operation w')))
                   (this := (case fst (operation w') of
                               Inr v \<Rightarrow> onSuccess (heap (snd (operation w')) this)
                             | Inl e \<Rightarrow> onFailure (clock (snd (operation w')))
                                        (heap (snd (operation w')) this)))\<rparr>)"
proof -
  have "execute this operation w = (Inl circuit_open_error, w)"
    using assms(1) by (rule execute_open)
  moreover have "state (heap (timer_fires this w) this) = HALF_OPEN"
    using assms by (simp add: timer_fires_def monitor_tick_def)
  moreover have "fst (execute this operation w') = fst (operation w') \<and>
            snd (execute this operation w') =
              (snd (operation w'))
                \<lparr>heap := (heap (snd (operation w')))
                   (this := (case fst (operation w') of
                               Inr v \<Rightarrow> onSuccess (heap (snd (operation w')) this)
                             | Inl e \<Rightarrow> onFailure (clock (snd (operation w')))
                                        (heap (snd (operation w')) this)))\<rparr>"
    if "state (heap w' this) = HALF_OPEN" for w'
    using that by (cases "operation w'"; cases "fst (operation w')") (auto simp: execute_def)
  ultimately show ?thesis by blast
qed

theorem half_open_after_timer_witness:
  "state (heap ((world_with (cb_step (CallFails 0) (new_CircuitBreaker 1 1000 10000 0)))\<lparr>clock := 5000\<rparr>) 0) = OPEN \<and>
   fst (execute 0 (returning ())
      ((world_with (cb_step (CallFails 0) (new_CircuitBreaker 1 1000 10000 0)))\<lparr>clock := 5000\<rparr>)) =
     Inl circuit_open_error \<and>
   state (heap (timer_fires 0
      ((world_with (cb_step (CallFails 0) (new_CircuitBreaker 1 1000 10000 0)))\<lparr>clock := 5000\<rparr>)) 0) = HALF_OPEN \<and>
   fst (execute 0 (returning ()) (timer_fires 0
      ((world_with (cb_step (CallFails 0) (new_CircuitBreaker 1 1000 10000 0)))\<lparr>clock := 5000\<rparr>))) = Inr ()"
proof -
  let ?cb = "cb_step (CallFails 0) (new_CircuitBreaker 1 1000 10000 0)"
  let ?w = "(world_with ?cb)\<lparr>clock := 5000\<rparr>"
  have h1: "state (heap ?w 0) = OPEN" and h2: "nextAttempt (heap ?w 0) \<le> clock ?w"
    by (simp_all add: world_with_def new_CircuitBreaker_def onFailure_def Let_def)
  note t = half_open_after_timer[where operation = "returning ()" and w = ?w and this = 0, OF h1 h2]
  note a = t[THEN conjunct1]
  note b = t[THEN conjunct2, THEN conjunct1]
  note c = t[THEN conjunct2, THEN conjunct2, rule_format, OF b, THEN conjunct1]
  have a': "fst (execute 0 (returning ()) ?w) = Inl circuit_open_error"
    by (simp only: a fst_conv)
  have c': "fst (execute 0 (returning ()) (timer_fires 0 ?w)) = Inr ()"
    by (simp only: c returning_def fst_conv)
  show ?thesis by (intro conjI) (rule h1, rule a', rule b, rule c')
qed

text \<open>
  C2 as stated fails in three places. The breaker opened at time 0 with a cooldown of
  1000, the clock shows 5000, the timer has not fired since: the call is rejected. After
  the timer has fired, a probe during whose wait a second call fails is let through
  together with that second call: the second call's failure is recorded, the probe
  returns its value, and the breaker is left OPEN with a count of 0, not CLOSED. And a
  breaker with threshold 2 whose count a late success has reset stays HALF_OPEN after a
  failed probe.
\<close>

theorem open_past_deadline_counterexample:
  "state (heap ((execute_all 0 [throwing (Error ''boom'') :: unit operation]
                   (world_with (new_CircuitBreaker 1 1000 10000 0)))\<lparr>clock := 5000\<rparr>) 0) = OPEN \<and>
   nextAttempt (heap ((execute_all 0 [throwing (Error ''boom'') :: unit operation]
                   (world_with (new_CircuitBreaker 1 1000 10000 0)))\<lparr>clock := 5000\<rparr>) 0) = 1000 \<and>
   clock ((execute_all 0 [throwing (Error ''boom'') :: unit operation]
                   (world_with (new_CircuitBreaker 1 1000 10000 0)))\<lparr>clock := 5000\<rparr>) = 5000 \<and>
   fst (execute 0 (returning ())
          ((execute_all 0 [throwing (Error ''boom'') :: unit operation]
                   (world_with (new_CircuitBreaker 1 1000 10000 0)))\<lparr>clock := 5000\<rparr>)) =
     Inl circuit_open_error \<and>
   fst (execute 0 (while_pending 0 [throwing (Error ''boom'') :: unit operation] (returning ()))
          (timer_fires 0
            ((execute_all 0 [throwing (Error ''boom'') :: unit operation]
                   (world_with (new_CircuitBreaker 1 1000 10000 0)))\<lparr>clock := 5000\<rparr>))) = Inr () \<and>
   lastFailureTime (heap (snd
        (execute 0 (while_pending 0 [throwing (Error ''boom'') :: unit operation] (returning ()))
          (timer_fires 0
            ((execute_all 0 [throwing (Error ''boom'') :: unit operation]
                   (world_with (new_CircuitBreaker 1 1000 10000 0)))\<lparr>clock := 5000\<rparr>)))) 0) = Some 5000 \<and>
   state (heap (snd
        (execute 0 (while_pending 0 [throwing (Error ''boom'') :: unit operation] (returning ()))
          (timer_fires 0
            ((execute_all 0 [throwing (Error ''boom'') :: unit operation]
                   (world_with (new_CircuitBreaker 1 1000 10000 0)))\<lparr>clock := 5000\<rparr>)))) 0) = OPEN \<and>
   state (heap (timer_fires 0
        ((snd (execute 0
                 (while_pending 0 [throwing (Error ''boom'') :: unit operation,
                                   throwing (Error ''boom'')] (returning ()))
                 (world_with (new_CircuitBreaker 2 1000 10000 0))))\<lparr>clock := 5000\<rparr>)) 0) = HALF_OPEN \<and>
   state (heap (snd (execute 0 (throwing (Error ''boom'') :: unit operation)
      (timer_fires 0
        ((snd (execute 0
                 (while_pending 0 [throwing (Error ''boom'') :: unit operation,
                                   throwing (Error ''boom'')] (returning ()))
                 (world_with (new_CircuitBreaker 2 1000 10000 0))))\<lparr>clock := 5000\<rparr>)))) 0) = HALF_OPEN"
  by (simp add: execute_all_def execute_def world_with_def new_CircuitBreaker_def throwing_def
      returning_def while_pending_def onFailure_def onSuccess_def Let_def answering_def
      timer_fires_def monitor_tick_def circuit_open_error_def)

text \<open>
  The step function is what \<open>execute\<close> does to the breaker, for an operation that
  leaves the breaker alone.
\<close>

lemma execute_is_cb_step:
  assumes "operation w = (r, w1)" and "heap w1 this = heap w this"
  shows "heap (snd (execute this operation w)) this =
           cb_step (case r of Inr v \<Rightarrow> CallSucceeds | Inl e \<Rightarrow> CallFails (clock w1)) (heap w this)"
  using assms by (cases r) (auto simp: execute_def)

text \<open>
  C3. One step of a reachable breaker: a call that succeeds while the breaker is CLOSED
  or HALF_OPEN resets the failure count; OPEN is entered only by a failing call that
  brings the count to the threshold or beyond; HALF_OPEN is entered only from OPEN by
  the timer firing at or after \<open>nextAttempt\<close>; CLOSED is entered only from HALF_OPEN
  by a call that succeeds. The same holds of the three methods taken one by one:
  \<open>onSuccess\<close> resets the count and changes the state only from HALF_OPEN to CLOSED,
  \<open>onFailure\<close> changes it only to OPEN with the threshold reached, the timer callback
  only from OPEN to HALF_OPEN at or after \<open>nextAttempt\<close>.
\<close>

theorem breaker_transitions:
  assumes "reachable cb"
  shows "(state cb \<noteq> OPEN \<longrightarrow> failureCount (cb_step CallSucceeds cb) = 0) \<and>
         (state cb \<noteq> OPEN \<and> state (cb_step ev cb) = OPEN \<longrightarrow>
            (\<exists>now. ev = CallFails now) \<and>
            failureCount (cb_step ev cb) = failureCount cb + 1 \<and>
            threshold cb \<le> failureCount (cb_step ev cb)) \<and>
         (state cb \<noteq> HALF_OPEN \<and> state (cb_step ev cb) = HALF_OPEN \<longrightarrow>
            state cb = OPEN \<and> (\<exists>now. ev = TimerFires now \<and> nextAttempt cb \<le> now)) \<and>
         (state cb \<noteq> CLOSED \<and> state (cb_step ev cb) = CLOSED \<longrightarrow>
            state cb = HALF_OPEN \<and> ev = CallSucceeds) \<and>
         failureCount (onSuccess cb) = 0 \<and>
         (state (onSuccess cb) \<noteq> state cb \<longrightarrow>
            state cb = HALF_OPEN \<and> state (onSuccess cb) = CLOSED) \<and>
         (state (onFailure t cb) \<noteq> state cb \<longrightarrow>
            state (onFailure t cb) = OPEN \<and> threshold cb \<le> failureCount (onFailure t cb)) \<and>
         (state (monitor_tick t cb) \<noteq> state cb \<longrightarrow>
            state cb = OPEN \<and> nextAttempt cb \<le> t \<and> state (monitor_tick t cb) = HALF_OPEN)"
  by (cases ev; cases "state cb")
     (auto simp: onSuccess_def onFailure_def monitor_tick_def Let_def split: if_splits)

theorem breaker_transitions_witness:
  "failureCount (cb_step CallSucceeds (cb_step (CallFails 0) (new_CircuitBreaker 2 1000 10000 0))) = 0 \<and>
   state (cb_step (CallFails 7) (new_CircuitBreaker 1 1000 10000 0)) = OPEN \<and>
   failureCount (cb_step (CallFails 7) (new_CircuitBreaker 1 1000 10000 0)) = 1 \<and>
   state (cb_step (TimerFires 2000) (cb_step (CallFails 0) (new_CircuitBreaker 1 1000 10000 0))) = HALF_OPEN \<and>
   state (cb_step (CallFails 0) (new_CircuitBreaker 1 1000 10000 0)) = OPEN \<and>
   state (cb_step CallSucceeds
     (cb_step (TimerFires 2000) (cb_step (CallFails 0) (new_CircuitBreaker 1 1000 10000 0)))) = CLOSED \<and>
   state (cb_step (TimerFires 2000) (cb_step (CallFails 0) (new_CircuitBreaker 1 1000 10000 0))) = HALF_OPEN"
proof -
  let ?new = "new_CircuitBreaker 1 1000 10000 0"
  let ?open = "cb_step (CallFails 0) ?new"
  let ?half = "cb_step (TimerFires 2000) ?open"
  let ?one = "cb_step (CallFails 0) (new_CircuitBreaker 2 1000 10000 0)"
  have r1: "reachable ?one" and r2: "reachable ?new" and r3: "reachable ?open" and r4: "reachable ?half"
    by (intro reachable.intros)+
  have s1: "state ?one \<noteq> OPEN" and s2: "state ?new \<noteq> OPEN" "state (cb_step (CallFails 7) ?new) = OPEN"
    and s3: "state ?open \<noteq> HALF_OPEN" "state ?half = HALF_OPEN"
    and s4: "state ?half \<noteq> CLOSED" "state (cb_step CallSucceeds ?half) = CLOSED"
    by (simp_all add: new_CircuitBreaker_def onFailure_def onSuccess_def monitor_tick_def Let_def)
  from breaker_transitions[OF r1, of CallSucceeds] s1
  have a: "failureCount (cb_step CallSucceeds ?one) = 0" by blast
  from breaker_transitions[OF r2, of "CallFails 7"] s2
  have b: "failureCount (cb_step (CallFails 7) ?new) = failureCount ?new + 1" by blast
  from breaker_transitions[OF r3, of "TimerFires 2000"] s3
  have c: "state ?open = OPEN" by blast
  from breaker_transitions[OF r4, of CallSucceeds] s4
  have d: "state ?half = HALF_OPEN" by blast
  have b': "failureCount (cb_step (CallFails 7) ?new) = 1"
    unfolding b by (simp add: new_CircuitBreaker_def)
  show ?thesis by (intro conjI) (rule a, rule s2(2), rule b', rule s3(2), rule c, rule s4(2), rule d)
qed


text \<open>
  C4, as the code has it. A call that finds the breaker HALF_OPEN runs its operation
  and records the outcome on the breaker as the operation left it. When the operation
  succeeds the failure count is 0, and the breaker is CLOSED if it was still HALF_OPEN.
  When the operation fails and this failure brings the count to the threshold or
  beyond, the breaker is OPEN and \<open>nextAttempt\<close> is the time the operation settled plus
  the cooldown.
\<close>

theorem half_open_probe_outcome:
  assumes "state (heap w this) = HALF_OPEN" and "operation w = (r, w1)"
  shows "fst (execute this operation w) = r \<and>
         (\<forall>v. r = Inr v \<longrightarrow>
            failureCount (heap (snd (execute this operation w)) this) = 0 \<and>
            (state (heap w1 this) = HALF_OPEN \<longrightarrow>
               state (heap (snd (execute this operation w)) this) = CLOSED)) \<and>
         (\<forall>e. r = Inl e \<and> threshold (heap w1 this) \<le> failureCount (heap w1 this) + 1 \<longrightarrow>
            state (heap (snd (execute this operation w)) this) = OPEN \<and>
            nextAttempt (heap (snd (execute this operation w)) this) =
              clock w1 + timeout (heap w1 this))"
proof (cases r)
  case (Inl e)
  with execute_failure[of w this operation e w1] assms show ?thesis
    by (simp add: onFailure_def Let_def)
next
  case (Inr v)
  with execute_success[of w this operation v w1] assms show ?thesis
    by (simp add: onSuccess_def Let_def)
qed

text \<open>
  In a run in which each call settles before the next event, a HALF_OPEN breaker has
  reached its threshold, so a failed probe whose operation leaves the breaker alone
  opens it again, and a probe that succeeds closes it.
\<close>

lemma half_open_probe_in_sequence:
  assumes "reachable_in_sequence (heap w this)" and "state (heap w this) = HALF_OPEN"
    and "operation w = (r, w1)" and "heap w1 this = heap w this"
  shows "state (heap (snd (execute this operation w)) this) =
           (case r of Inr v \<Rightarrow> CLOSED | Inl e \<Rightarrow> OPEN)"
proof -
  from sequence_invariant[OF assms(1)] assms(2)
  have inv: "threshold (heap w this) \<le> failureCount (heap w this)" by simp
  show ?thesis
  proof (cases r)
    case (Inl e)
    with execute_failure[of w this operation e w1] assms(2,3,4) inv show ?thesis
      by (simp add: onFailure_def Let_def)
  next
    case (Inr v)
    with execute_success[of w this operation v w1] assms(2,3,4) show ?thesis
      by (simp add: onSuccess_def Let_def)
  qed
qed

theorem half_open_probe_outcome_witness:
  "state (heap (world_with (cb_step (TimerFires 2000)
       (cb_step (CallFails 0) (new_CircuitBreaker 1 1000 10000 0)))) 0) = HALF_OPEN \<and>
   state (heap (snd (execute 0 (returning ()) (world_with (cb_step (TimerFires 2000)
       (cb_step (CallFails 0) (new_CircuitBreaker 1 1000 10000 0)))))) 0) = CLOSED \<and>
   failureCount (heap (snd (execute 0 (returning ()) (world_with (cb_step (TimerFires 2000)
       (cb_step (CallFails 0) (new_CircuitBreaker 1 1000 10000 0)))))) 0) = 0 \<and>
   state (heap (snd (execute 0 (throwing (Error ''boom'') :: unit operation) (world_with (cb_step (TimerFires 2000)
       (cb_step (CallFails 0) (new_CircuitBreaker 1 1000 10000 0)))))) 0) = OPEN \<and>
   nextAttempt (heap (snd (execute 0 (throwing (Error ''boom'') :: unit operation) (world_with (cb_step (TimerFires 2000)
       (cb_step (CallFails 0) (new_CircuitBreaker 1 1000 10000 0)))))) 0) = 1000"
proof -
  let ?half = "cb_step (TimerFires 2000) (cb_step (CallFails 0) (new_CircuitBreaker 1 1000 10000 0))"
  let ?w = "world_with ?half"
  have h2: "state (heap ?w 0) = HALF_OPEN"
    by (simp add: world_with_def new_CircuitBreaker_def onFailure_def monitor_tick_def Let_def)
  have ok: "returning () ?w = (Inr (), ?w)" by (simp add: returning_def)
  have ko: "(throwing (Error ''boom'') :: unit operation) ?w = (Inl (Error ''boom''), ?w)"
    by (simp add: throwing_def)
  have th: "threshold (heap ?w 0) \<le> failureCount (heap ?w 0) + 1"
    by (simp add: world_with_def new_CircuitBreaker_def onFailure_def monitor_tick_def Let_def)
  have ck: "clock ?w + timeout (heap ?w 0) = 1000"
    by (simp add: world_with_def answering_def new_CircuitBreaker_def onFailure_def monitor_tick_def Let_def)
  from half_open_probe_outcome[where operation = "returning ()" and w = ?w and this = 0, OF h2 ok] h2
  have a: "state (heap (snd (execute 0 (returning ()) ?w)) 0) = CLOSED"
    and b: "failureCount (heap (snd (execute 0 (returning ()) ?w)) 0) = 0" by blast+
  from half_open_probe_outcome[where operation = "throwing (Error ''boom'') :: unit operation"
      and w = ?w and this = 0, OF h2 ko] th
  have c: "state (heap (snd (execute 0 (throwing (Error ''boom'') :: unit operation) ?w)) 0) = OPEN"
    and d: "nextAttempt (heap (snd (execute 0 (throwing (Error ''boom'') :: unit operation) ?w)) 0) =
       clock ?w + timeout (heap ?w 0)" by blast+
  show ?thesis by (intro conjI) (rule h2, rule a, rule b, rule c, simp only: d ck)
qed

text \<open>
  C4 as stated fails when calls overlap. A breaker with threshold 2 is CLOSED; a call
  is pending while two others fail and open the breaker; the pending call then succeeds
  and resets the count to 0 on the OPEN breaker. The timer makes it HALF_OPEN. The probe
  fails: the count is 1, below the threshold, and the breaker stays HALF_OPEN with the
  \<open>nextAttempt\<close> it had. And on a HALF_OPEN breaker with threshold 1, a probe during
  whose wait another call fails succeeds without closing the breaker: it is left OPEN.
\<close>

theorem failed_probe_stays_half_open_counterexample:
  "threshold (heap (timer_fires 0
        ((snd (execute 0
                 (while_pending 0 [throwing (Error ''boom'') :: unit operation,
                                   throwing (Error ''boom'')] (returning ()))
                 (world_with (new_CircuitBreaker 2 1000 10000 0))))\<lparr>clock := 5000\<rparr>)) 0) = 2 \<and>
   failureCount (heap (timer_fires 0
        ((snd (execute 0
                 (while_pending 0 [throwing (Error ''boom'') :: unit operation,
                                   throwing (Error ''boom'')] (returning ()))
                 (world_with (new_CircuitBreaker 2 1000 10000 0))))\<lparr>clock := 5000\<rparr>)) 0) = 0 \<and>
   state (heap (timer_fires 0
        ((snd (execute 0
                 (while_pending 0 [throwing (Error ''boom'') :: unit operation,
                                   throwing (Error ''boom'')] (returning ()))
                 (world_with (new_CircuitBreaker 2 1000 10000 0))))\<lparr>clock := 5000\<rparr>)) 0) = HALF_OPEN \<and>
   fst (execute 0 (throwing (Error ''boom'') :: unit operation)
      (timer_fires 0
        ((snd (execute 0
                 (while_pending 0 [throwing (Error ''boom'') :: unit operation,
                                   throwing (Error ''boom'')] (returning ()))
                 (world_with (new_CircuitBreaker 2 1000 10000 0))))\<lparr>clock := 5000\<rparr>))) =
     Inl (Error ''boom'') \<and>
   state (heap (snd (execute 0 (throwing (Error ''boom'') :: unit operation)
      (timer_fires 0
        ((snd (execute 0
                 (while_pending 0 [throwing (Error ''boom'') :: unit operation,
                                   throwing (Error ''boom'')] (returning ()))
                 (world_with (new_CircuitBreaker 2 1000 10000 0))))\<lparr>clock := 5000\<rparr>)))) 0) = HALF_OPEN \<and>
   failureCount (heap (snd (execute 0 (throwing (Error ''boom'') :: unit operation)
      (timer_fires 0
        ((snd (execute 0
                 (while_pending 0 [throwing (Error ''boom'') :: unit operation,
                                   throwing (Error ''boom'')] (returning ()))
                 (world_with (new_CircuitBreaker 2 1000 10000 0))))\<lparr>clock := 5000\<rparr>)))) 0) = 1 \<and>
   nextAttempt (heap (snd (execute 0 (throwing (Error ''boom'') :: unit operation)
      (timer_fires 0
        ((snd (execute 0
                 (while_pending 0 [throwing (Error ''boom'') :: unit operation,
                                   throwing (Error ''boom'')] (returning ()))
                 (world_with (new_CircuitBreaker 2 1000 10000 0))))\<lparr>clock := 5000\<rparr>)))) 0) = 1000 \<and>
   state (heap (world_with (cb_step (TimerFires 2000)
       (cb_step (CallFails 0) (new_CircuitBreaker 1 1000 10000 0)))) 0) = HALF_OPEN \<and>
   fst (execute 0 (while_pending 0 [throwing (Error ''boom'') :: unit operation] (returning ()))
      (world_with (cb_step (TimerFires 2000)
         (cb_step (CallFails 0) (new_CircuitBreaker 1 1000 10000 0))))) = Inr () \<and>
   state (heap (snd
      (execute 0 (while_pending 0 [throwing (Error ''boom'') :: unit operation] (returning ()))
        (world_with (cb_step (TimerFires 2000)
           (cb_step (CallFails 0) (new_CircuitBreaker 1 1000 10000 0)))))) 0) = OPEN"
  by (simp add: execute_all_def execute_def world_with_def new_CircuitBreaker_def throwing_def
      returning_def while_pending_def onFailure_def onSuccess_def Let_def answering_def
      timer_fires_def monitor_tick_def Error_def)

section \<open>Properties of the retry classification, the backoff and the metrics\<close>

text \<open>
  C6. \<open>shouldRetry\<close> holds of an error exactly when it is named \<open>AbortError\<close>, is
  named \<open>TypeError\<close>, carries a status from 500 up to but not including 600, or
  carries the status 429. In particular an error with a 4xx status other than 429 that
  is neither an abort nor a type error is fatal.
\<close>

theorem shouldRetry_classification:
  "(shouldRetry e \<longleftrightarrow>
      name e = ''AbortError'' \<or> name e = ''TypeError'' \<or>
      (\<exists>s. status e = Some s \<and> 500 \<le> s \<and> s < 600) \<or> status e = Some 429) \<and>
   (name e \<noteq> ''AbortError'' \<and> name e \<noteq> ''TypeError'' \<and>
    status e = Some s \<and> 400 \<le> s \<and> s < 500 \<and> s \<noteq> 429 \<longrightarrow> \<not> shouldRetry e)"
  by (cases "status e") (auto simp: shouldRetry_def)

theorem shouldRetry_classification_witness:
  "\<not> shouldRetry (APIError ''Not Found'' 404 []) \<and>
   shouldRetry (APIError ''Service Unavailable'' 503 []) \<and>
   shouldRetry (APIError ''Too Many Requests'' 429 []) \<and>
   shouldRetry (JsError ''TypeError'' ''Failed to fetch'' None []) \<and>
   shouldRetry (JsError ''AbortError'' ''The operation was aborted.'' None []) \<and>
   \<not> shouldRetry (Error ''Token refresh failed'')"
proof -
  have n: "name (APIError ''Not Found'' 404 []) \<noteq> ''AbortError'' \<and>
           name (APIError ''Not Found'' 404 []) \<noteq> ''TypeError'' \<and>
           status (APIError ''Not Found'' 404 []) = Some 404 \<and>
           (400::int) \<le> 404 \<and> (404::int) < 500 \<and> (404::int) \<noteq> 429"
    by (simp add: APIError_def)
  from shouldRetry_classification[of "APIError ''Not Found'' 404 []" 404] n
  have a: "\<not> shouldRetry (APIError ''Not Found'' 404 [])" by blast
  have b: "shouldRetry (APIError ''Service Unavailable'' 503 [])"
    using shouldRetry_classification[of "APIError ''Service Unavailable'' 503 []" 0]
    by (simp add: APIError_def)
  have c: "shouldRetry (APIError ''Too Many Requests'' 429 [])"
    using shouldRetry_classification[of "APIError ''Too Many Requests'' 429 []" 0]
    by (simp add: APIError_def)
  have d: "shouldRetry (JsError ''TypeError'' ''Failed to fetch'' None [])"
    using shouldRetry_classification[of "JsError ''TypeError'' ''Failed to fetch'' None []" 0]
    by simp
  have e: "shouldRetry (JsError ''AbortError'' ''The operation was aborted.'' None [])"
    using shouldRetry_classification[of "JsError ''AbortError'' ''The operation was aborted.'' None []" 0]
    by simp
  have f: "\<not> shouldRetry (Error ''Token refresh failed'')"
    using shouldRetry_classification[of "Error ''Token refresh failed''" 0]
    by (simp add: Error_def)
  show ?thesis using a b c d e f by blast
qed

text \<open>
  C8. With a draw \<open>rnd\<close> of \<open>Math.random()\<close> in \<open>[0, 1)\<close> the jitter \<open>rnd * 1000\<close> lies in
  \<open>[0, 1000)\<close>, the delay of attempt \<open>n\<close> is \<open>min (baseDelay * 2 ^ n + jitter) 30000\<close>,
  and so it lies between \<open>baseDelay * 2 ^ n\<close> and \<open>baseDelay * 2 ^ n + 1000\<close>, both
  capped at 30000.
\<close>

theorem calculateRetryDelay_bounds:
  assumes "0 \<le> rnd" and "rnd < 1"
  shows "0 \<le> rnd * 1000 \<and> rnd * 1000 < 1000 \<and>
         calculateRetryDelay n baseDelay rnd = min (baseDelay * 2 ^ n + rnd * 1000) 30000 \<and>
         min (baseDelay * 2 ^ n) 30000 \<le> calculateRetryDelay n baseDelay rnd \<and>
         calculateRetryDelay n baseDelay rnd \<le> min (baseDelay * 2 ^ n + 1000) 30000"
  using assms by (auto simp: calculateRetryDelay_def Let_def min_def)

theorem calculateRetryDelay_bounds_witness:
  "calculateRetryDelay 2 1000 (1/2) = 4500 \<and> calculateRetryDelay 5 1000 (1/2) = 30000 \<and>
   min (1000 * 2 ^ 2) 30000 \<le> calculateRetryDelay 2 1000 (1/2) \<and>
   calculateRetryDelay 2 1000 (1/2) \<le> min (1000 * 2 ^ 2 + 1000) 30000"
proof -
  have h: "(0::real) \<le> 1/2" "(1/2::real) < 1" by simp_all
  from calculateRetryDelay_bounds[OF h, of 2 1000]
  have a: "calculateRetryDelay 2 1000 (1/2) = 4500"
    and c: "min (1000 * 2 ^ 2) 30000 \<le> calculateRetryDelay 2 1000 (1/2)"
    and d: "calculateRetryDelay 2 1000 (1/2) \<le> min (1000 * 2 ^ 2 + 1000) 30000" by simp_all
  from calculateRetryDelay_bounds[OF h, of 5 1000]
  have b: "calculateRetryDelay 5 1000 (1/2) = 30000" by simp
  show ?thesis using a b c d by blast
qed

text \<open>One call, and any number of calls, keep a window of at most 100 entries.\<close>

lemma updateMetrics_window:
  "length (requestTimes m) \<le> 100 \<Longrightarrow> length (requestTimes (updateMetrics s d m)) \<le> 100"
  by (simp add: updateMetrics_def Let_def)

lemma updateMetrics_fold_window:
  "length (requestTimes m) \<le> 100 \<Longrightarrow>
     length (requestTimes (fold (\<lambda>(s, d). updateMetrics s d) calls m)) \<le> 100"
  by (induction calls arbitrary: m) (auto simp: updateMetrics_window)

text \<open>
  C9. After any sequence of \<open>updateMetrics\<close> calls on fresh metrics the window
  \<open>requestTimes\<close> holds at most 100 durations, and a call keeps that bound. A call
  on a window of exactly 100 entries drops the oldest entry and appends the new
  duration; a call on a shorter window only appends.
\<close>

theorem requestTimes_window:
  "length (requestTimes (fold (\<lambda>(success, duration). updateMetrics success duration) calls
                           initial_metrics)) \<le> 100 \<and>
   (length (requestTimes m) \<le> 100 \<longrightarrow>
      length (requestTimes (updateMetrics success duration m)) \<le> 100) \<and>
   (length (requestTimes m) = 100 \<longrightarrow>
      requestTimes (updateMetrics success duration m) = tl (requestTimes m) @ [duration]) \<and>
   (length (requestTimes m) < 100 \<longrightarrow>
      requestTimes (updateMetrics success duration m) = requestTimes m @ [duration])"
proof -
  have "length (requestTimes initial_metrics) \<le> 100" by (simp add: initial_metrics_def)
  from updateMetrics_fold_window[OF this] show ?thesis
    by (cases "requestTimes m") (auto simp: updateMetrics_def Let_def updateMetrics_window)
qed

theorem requestTimes_window_witness:
  "length (requestTimes (initial_metrics\<lparr>requestTimes := Some 0 # replicate 99 (Some 1)\<rparr>)) = 100 \<and>
   requestTimes (updateMetrics True (Some 2)
       (initial_metrics\<lparr>requestTimes := Some 0 # replicate 99 (Some 1)\<rparr>)) =
     replicate 99 (Some 1) @ [Some 2] \<and>
   requestTimes (updateMetrics False (Some 7) initial_metrics) = [Some 7]"
proof -
  let ?m = "initial_metrics\<lparr>requestTimes := Some 0 # replicate 99 (Some 1)\<rparr>"
  have h: "length (requestTimes ?m) = 100" by simp
  have h0: "length (requestTimes initial_metrics) < 100" by (simp add: initial_metrics_def)
  from requestTimes_window[of "[]" ?m True "Some 2"] h
  have a: "requestTimes (updateMetrics True (Some 2) ?m) = tl (requestTimes ?m) @ [Some 2]" by blast
  from requestTimes_window[of "[]" initial_metrics False "Some 7"] h0
  have b: "requestTimes (updateMetrics False (Some 7) initial_metrics) =
      requestTimes initial_metrics @ [Some 7]" by blast
  show ?thesis using h a b by (simp add: initial_metrics_def)
qed

section \<open>Properties of the client\<close>

text \<open>
  What the steps of one attempt leave unchanged: none of them touches a breaker or the
  oracles, a \<open>fetch\<close> appends its URL to the record of calls, a refresh is counted.
\<close>

lemma request_interceptor_frame:
  "request_interceptor c w = (pc, w1) \<Longrightarrow>
     url pc = url c \<and> retry_flag pc = retry_flag c \<and> retries pc = retries c \<and> headers pc \<noteq> None \<and>
     heap w1 = heap w \<and> circuitBreakers w1 = circuitBreakers w \<and> net w1 = net w \<and>
     fetched w1 = fetched w \<and> refreshes w1 = refreshes w \<and> requests w1 = requests w \<and>
     slept w1 = slept w \<and> storage_user w1 = storage_user w"
  by (auto simp: request_interceptor_def Let_def)

lemma fetch_frame:
  "fetch u w = (r, w1) \<Longrightarrow>
     heap w1 = heap w \<and> circuitBreakers w1 = circuitBreakers w \<and> net w1 = net w \<and>
     fetched w1 = fetched w @ [u] \<and> refreshes w1 = refreshes w \<and> requests w1 = requests w \<and>
     slept w1 = slept w \<and> storage_user w1 = storage_user w"
  by (auto simp: fetch_def Let_def split: prod.splits fetch_outcome.splits)

lemma try_attempt_frame:
  "try_attempt c w = (r, w1) \<Longrightarrow>
     heap w1 = heap w \<and> circuitBreakers w1 = circuitBreakers w \<and> net w1 = net w \<and>
     fetched w1 = fetched w @ [url c] \<and> refreshes w1 = refreshes w \<and> requests w1 = requests w \<and>
     slept w1 = slept w \<and> storage_user w1 = storage_user w"
  by (auto simp: try_attempt_def response_success_interceptor_def Let_def
           split: prod.splits sum.splits if_splits option.splits json_value.splits
           dest!: fetch_frame)

lemma response_error_interceptor_frame:
  "response_error_interceptor e c w = (e1, w1) \<Longrightarrow>
     heap w1 = heap w \<and> circuitBreakers w1 = circuitBreakers w \<and> net w1 = net w \<and>
     fetched w1 = fetched w \<and> refreshes w1 = refreshes w \<and> requests w1 = requests w \<and>
     slept w1 = slept w \<and> storage_user w1 = storage_user w"
  by (auto simp: response_error_interceptor_def Let_def split: option.splits)

lemma refreshToken_call_frame:
  "refreshToken_call w = (r, w1) \<Longrightarrow>
     heap w1 = heap w \<and> circuitBreakers w1 = circuitBreakers w \<and> net w1 = net w \<and>
     refreshes w1 = refreshes w + 1 \<and> requests w1 = requests w \<and> slept w1 = slept w"
  by (auto simp: refreshToken_call_def Let_def
           split: prod.splits sum.splits if_splits option.splits json_value.splits
           dest!: fetch_frame)

lemma handleAuthenticationFailure_frame:
  "heap (handleAuthenticationFailure w) = heap w \<and>
   circuitBreakers (handleAuthenticationFailure w) = circuitBreakers w \<and>
   net (handleAuthenticationFailure w) = net w \<and>
   fetched (handleAuthenticationFailure w) = fetched w \<and>
   refreshes (handleAuthenticationFailure w) = refreshes w \<and>
   requests (handleAuthenticationFailure w) = requests w \<and>
   slept (handleAuthenticationFailure w) = slept w"
  by (simp add: handleAuthenticationFailure_def)

lemma sleep_frame:
  "heap (sleep d w) = heap w \<and> circuitBreakers (sleep d w) = circuitBreakers w \<and>
   net (sleep d w) = net w \<and> fetched (sleep d w) = fetched w \<and>
   refreshes (sleep d w) = refreshes w \<and> requests (sleep d w) = requests w \<and>
   slept (sleep d w) = slept w @ [d] \<and> storage_user (sleep d w) = storage_user w"
  by (simp add: sleep_def)

text \<open>A call through a breaker counts what its operation counts.\<close>

lemma execute_counters:
  assumes "\<And>w. refreshes (snd (operation w)) = refreshes w \<and> requests (snd (operation w)) = requests w"
  shows "refreshes (snd (execute this operation w)) = refreshes w \<and>
         requests (snd (execute this operation w)) = requests w"
  using assms[of w] by (auto simp: execute_def split: prod.splits sum.splits)

text \<open>
  A request whose configuration has \<open>_retry\<close> set never refreshes the token and never
  calls \<open>request\<close> again, whatever the network answers.
\<close>

lemma retried_counters:
  "(retry_flag c \<longrightarrow> refreshes (snd (request c w)) = refreshes w \<and>
                      requests (snd (request c w)) = requests w + 1)"
  "(retry_flag c \<longrightarrow> refreshes (snd (executeRequest c w)) = refreshes w \<and>
                      requests (snd (executeRequest c w)) = requests w)"
  "(retry_flag c \<longrightarrow> refreshes (snd (attempt_loop c attempt le w)) = refreshes w \<and>
                      requests (snd (attempt_loop c attempt le w)) = requests w)"
proof (induction c w and c w and c attempt le w rule: request_executeRequest_attempt_loop.induct)
  case (1 c w)
  show ?case
  proof
    assume flag: "retry_flag c"
    obtain pc w1 where ri: "request_interceptor c (w\<lparr>requests := requests w + 1\<rparr>) = (pc, w1)"
      by fastforce
    note fr = request_interceptor_frame[OF ri]
    from fr flag have pflag: "retry_flag pc" by simp
    show "refreshes (snd (request c w)) = refreshes w \<and> requests (snd (request c w)) = requests w + 1"
    proof (cases "circuitBreakers w1 (getServiceFromUrl (url pc))")
      case None
      have "request c w = executeRequest pc w1"
        by (simp only: request.simps[of c w] ri prod.case None option.case)
      with "1.IH"(1)[OF ri[symmetric] None] pflag fr show ?thesis
        by simp
    next
      case (Some cb)
      have op: "\<And>w'. refreshes (snd (executeRequest pc w')) = refreshes w' \<and>
                  requests (snd (executeRequest pc w')) = requests w'"
        using "1.IH"(2)[OF ri[symmetric] Some] pflag by simp
      have "request c w = execute cb (executeRequest pc) w1"
        by (simp only: request.simps[of c w] ri prod.case Some option.case)
      with execute_counters[of "executeRequest pc", OF op, of cb w1] fr show ?thesis
        by simp
    qed
  qed
next
  case (2 c w)
  then show ?case by (simp add: executeRequest.simps)
next
  case (3 c attempt le w)
  show ?case
  proof
    assume flag: "retry_flag c"
    show "refreshes (snd (attempt_loop c attempt le w)) = refreshes w \<and>
          requests (snd (attempt_loop c attempt le w)) = requests w"
    proof (cases "attempt \<le> retries_of c")
      case False
      then show ?thesis by (simp add: attempt_loop.simps[of c attempt le w] split: option.splits)
    next
      case True
      obtain r w1 where ta: "try_attempt c w = (r, w1)" by fastforce
      note f1 = try_attempt_frame[OF ta]
      show ?thesis
      proof (cases r)
        case (Inr v)
        with ta True f1 show ?thesis by (simp add: attempt_loop.simps[of c attempt le w])
      next
        case (Inl e)
        obtain e1 w2 where rei: "response_error_interceptor e c w1 = (e1, w2)" by fastforce
        note f2 = response_error_interceptor_frame[OF rei]
        show ?thesis
        proof (cases "attempt < retries_of c \<and> shouldRetry e")
          case False
          with ta True f1 f2 Inl rei flag show ?thesis
            by (auto simp add: attempt_loop.simps[of c attempt le w])
        next
          case retry: True
          let ?w5 = "sleep (calculateRetryDelay attempt (retryDelay_of c) (random w2 (draws w2)))
                        (w2\<lparr>draws := draws w2 + 1\<rparr>)"
          have "refreshes (snd (attempt_loop c (attempt + 1) (Some e) ?w5)) = refreshes ?w5 \<and>
                requests (snd (attempt_loop c (attempt + 1) (Some e) ?w5)) = requests ?w5"
            using "3.IH"(2)[OF True ta[symmetric, unfolded Inl] refl rei[symmetric], of "Inl e" "(c, w2)" e c w2]
              flag retry by (simp add: Let_def)
          with ta True f1 f2 Inl rei flag retry show ?thesis
            by (simp add: attempt_loop.simps[of c attempt le w] Let_def sleep_frame)
        qed
      qed
    qed
  qed
qed

text \<open>
  One iteration of the loop, case by case: the attempt succeeds; the error interceptor
  rethrows the error (no 401, or \<open>_retry\<close> already set); the refresh throws; the
  request is issued again.
\<close>

lemma attempt_loop_success:
  "attempt \<le> retries_of c \<Longrightarrow> try_attempt c w = (Inr v, w1) \<Longrightarrow>
     attempt_loop c attempt le w = (Inr v, w1)"
  by (simp add: attempt_loop.simps[of c attempt le w])

lemma attempt_loop_rethrown:
  assumes "attempt \<le> retries_of c" and "try_attempt c w = (Inl e, w1)"
    and "response_error_interceptor e c w1 = (e1, w2)"
    and "status e \<noteq> Some 401 \<or> retry_flag c"
  shows "attempt_loop c attempt le w =
           (if attempt < retries_of c \<and> shouldRetry e
            then attempt_loop c (attempt + 1) (Some e)
                   (sleep (calculateRetryDelay attempt (retryDelay_of c) (random w2 (draws w2)))
                      (w2\<lparr>draws := draws w2 + 1\<rparr>))
            else (Inl e, w2))"
  using assms by (auto simp add: attempt_loop.simps[of c attempt le w] Let_def)

lemma attempt_loop_refresh_failed:
  assumes "attempt \<le> retries_of c" and "try_attempt c w = (Inl e, w1)"
    and "response_error_interceptor e c w1 = (e1, w2)"
    and "status e = Some 401" and "\<not> retry_flag c"
    and "refreshToken_call w2 = (Inl refreshError, w3)"
  shows "attempt_loop c attempt le w =
           (if attempt < retries_of c \<and> shouldRetry e
            then attempt_loop c (attempt + 1) (Some refreshError)
                   (sleep (calculateRetryDelay attempt (retryDelay_of c)
                             (random (handleAuthenticationFailure w3)
                                (draws (handleAuthenticationFailure w3))))
                      ((handleAuthenticationFailure w3)
                         \<lparr>draws := draws (handleAuthenticationFailure w3) + 1\<rparr>))
            else (Inl refreshError, handleAuthenticationFailure w3))"
  using assms by (auto simp add: attempt_loop.simps[of c attempt le w] Let_def)

lemma attempt_loop_reissued:
  assumes "attempt \<le> retries_of c" and "try_attempt c w = (Inl e, w1)"
    and "response_error_interceptor e c w1 = (e1, w2)"
    and "status e = Some 401" and "\<not> retry_flag c"
    and "refreshToken_call w2 = (Inr newToken, w3)"
    and "request (c\<lparr>retry_flag := True\<rparr>) w3 = (r, w4)"
  shows "attempt_loop c attempt le w =
           (case r of
              Inr v \<Rightarrow> (Inr v, w4)
            | Inl interceptorError \<Rightarrow>
                if attempt < retries_of c \<and> shouldRetry e
                then attempt_loop (c\<lparr>retry_flag := True\<rparr>) (attempt + 1) (Some interceptorError)
                       (sleep (calculateRetryDelay attempt (retryDelay_of c) (random w4 (draws w4)))
                          (w4\<lparr>draws := draws w4 + 1\<rparr>))
                else (Inl interceptorError, w4))"
  using assms by (auto simp add: attempt_loop.simps[of c attempt le w] Let_def split: sum.splits)

text \<open>
  Only an \<open>APIError\<close> carries a status, so a 401 is never retried by the loop.
\<close>

lemma fetch_thrown:
  "fetch u w = (Inl e, w1) \<Longrightarrow> status e = None"
  by (auto simp: fetch_def Let_def split: prod.splits fetch_outcome.splits)

lemma try_attempt_thrown:
  "try_attempt c w = (Inl e, w1) \<Longrightarrow> status e = Some s \<Longrightarrow> name e = ''APIError''"
  by (auto simp: try_attempt_def response_success_interceptor_def Let_def APIError_def
        json_SyntaxError_def headers_TypeError_def null_TypeError_def
        split: prod.splits sum.splits if_splits option.splits json_value.splits
        dest!: fetch_thrown)

lemma unauthorized_not_retried:
  "try_attempt c w = (Inl e, w1) \<Longrightarrow> status e = Some 401 \<Longrightarrow> \<not> shouldRetry e"
  by (frule (1) try_attempt_thrown) (simp add: shouldRetry_def)

text \<open>
  A response that is not ok becomes an \<open>APIError\<close> with its status, unless its body
  parses to \<open>null\<close>: then the attempt throws a \<open>TypeError\<close>, which the loop retries.
\<close>

lemma try_attempt_http_error:
  assumes "net w (length (fetched w)) (url c) = (latency, Responds r)" and "\<not> ok r"
    and "body r \<noteq> Some JsonNull"
  shows "\<exists>m cd w1. try_attempt c w = (Inl (APIError m (int (http_status r)) cd), w1)"
  using assms
  by (auto simp add: try_attempt_def fetch_def parseErrorResponse_def Let_def
        split: option.splits json_value.splits)

lemma try_attempt_null_body:
  assumes "net w (length (fetched w)) (url c) = (latency, Responds r)" and "\<not> ok r"
    and "body r = Some JsonNull"
  shows "\<exists>w1. try_attempt c w = (Inl null_TypeError, w1)"
  using assms by (auto simp add: try_attempt_def fetch_def parseErrorResponse_def Let_def)

lemma null_TypeError_retried:
  "shouldRetry null_TypeError \<and> status null_TypeError = None"
  by (simp add: shouldRetry_def null_TypeError_def)

lemma try_attempt_server_error:
  assumes "net w (length (fetched w)) (url c) = (latency, Responds r)" and "http_status r = 500"
  shows "\<exists>e w1. try_attempt c w = (Inl e, w1) \<and> shouldRetry e \<and> status e \<noteq> Some 401 \<and>
           (status e = Some 500 \<or> e = null_TypeError)"
proof -
  from assms(2) have nok: "\<not> ok r" by (simp add: ok_def)
  show ?thesis
  proof (cases "body r = Some JsonNull")
    case True
    from try_attempt_null_body[OF assms(1) nok True] null_TypeError_retried show ?thesis
      by auto
  next
    case False
    from try_attempt_http_error[OF assms(1) nok False] assms(2) show ?thesis
      by (auto simp: shouldRetry_def APIError_def)
  qed
qed


text \<open>
  From any attempt on, when every remaining attempt is answered 500: the loop makes all
  the remaining attempts, sleeps between them and throws the error of the last one, an
  \<open>APIError\<close> with status 500 or, for a body that parses to \<open>null\<close>, a \<open>TypeError\<close>.
\<close>

lemma server_error_loop:
  assumes "attempt \<le> retries_of c"
    and "\<forall>k \<le> retries_of c - attempt.
           \<exists>latency r. net w (length (fetched w) + k) (url c) = (latency, Responds r) \<and>
                       http_status r = 500"
  shows "\<exists>e w'. attempt_loop c attempt le w = (Inl e, w') \<and>
           (status e = Some 500 \<or> e = null_TypeError) \<and>
           fetched w' = fetched w @ replicate (retries_of c + 1 - attempt) (url c) \<and>
           length (slept w') = length (slept w) + (retries_of c - attempt) \<and>
           refreshes w' = refreshes w \<and> requests w' = requests w"
  using assms
proof (induction "retries_of c - attempt" arbitrary: attempt w le)
  case 0
  then have last: "attempt = retries_of c" by simp
  from "0.prems"(2) obtain latency r
    where r: "net w (length (fetched w)) (url c) = (latency, Responds r)" "http_status r = 500"
    by force
  from try_attempt_server_error[OF r] obtain e w1
    where ta: "try_attempt c w = (Inl e, w1)" and e: "shouldRetry e" "status e \<noteq> Some 401"
      "status e = Some 500 \<or> e = null_TypeError" by blast
  obtain e1 w2 where rei: "response_error_interceptor e c w1 = (e1, w2)"
    by fastforce
  from e(2) have "status e \<noteq> Some 401 \<or> retry_flag c" by simp
  from attempt_loop_rethrown[OF "0.prems"(1) ta rei this, of le] last
  have "attempt_loop c attempt le w = (Inl e, w2)" by simp
  with try_attempt_frame[OF ta] response_error_interceptor_frame[OF rei] last e(3) show ?case
    by auto
next
  case (Suc n)
  then have more: "attempt < retries_of c" by simp
  from Suc.prems(2) obtain latency r
    where r: "net w (length (fetched w)) (url c) = (latency, Responds r)" "http_status r = 500"
    by force
  from try_attempt_server_error[OF r] obtain e w1
    where ta: "try_attempt c w = (Inl e, w1)" and e: "shouldRetry e" "status e \<noteq> Some 401"
    by blast
  obtain e1 w2 where rei: "response_error_interceptor e c w1 = (e1, w2)"
    by fastforce
  note f1 = try_attempt_frame[OF ta] and f2 = response_error_interceptor_frame[OF rei]
  define w5 where "w5 = sleep (calculateRetryDelay attempt (retryDelay_of c) (random w2 (draws w2)))
               (w2\<lparr>draws := draws w2 + 1\<rparr>)"
  from e(2) have "status e \<noteq> Some 401 \<or> retry_flag c" by simp
  from attempt_loop_rethrown[OF Suc.prems(1) ta rei this, of le] more e(1)
  have step: "attempt_loop c attempt le w = attempt_loop c (attempt + 1) (Some e) w5"
    by (simp add: w5_def)
  have w5: "fetched w5 = fetched w @ [url c]" "net w5 = net w"
    "length (slept w5) = length (slept w) + 1"
    "refreshes w5 = refreshes w" "requests w5 = requests w"
    using f1 f2 by (simp_all add: sleep_def w5_def)
  have next_ok: "\<forall>k \<le> retries_of c - (attempt + 1).
           \<exists>latency r. net w5 (length (fetched w5) + k) (url c) = (latency, Responds r) \<and>
                       http_status r = 500"
  proof (intro allI impI)
    fix k assume "k \<le> retries_of c - (attempt + 1)"
    with more have "Suc k \<le> retries_of c - attempt" by simp
    with Suc.prems(2) have "\<exists>latency r. net w (length (fetched w) + Suc k) (url c) = (latency, Responds r) \<and>
                       http_status r = 500" by blast
    then show "\<exists>latency r. net w5 (length (fetched w5) + k) (url c) = (latency, Responds r) \<and>
                       http_status r = 500"
      by (simp add: w5)
  qed
  have "n = retries_of c - (attempt + 1)" using Suc.hyps(2) by simp
  from Suc.hyps(1)[OF this _ next_ok, of "Some e"] more
  obtain e' w' where res:
    "attempt_loop c (attempt + 1) (Some e) w5 = (Inl e', w')"
    "status e' = Some 500 \<or> e' = null_TypeError"
    "fetched w' = fetched w5 @ replicate (retries_of c + 1 - (attempt + 1)) (url c)"
    "length (slept w') = length (slept w5) + (retries_of c - (attempt + 1))"
    "refreshes w' = refreshes w5" "requests w' = requests w5"
    by auto
  have "replicate (retries_of c + 1 - attempt) (url c) =
          url c # replicate (retries_of c + 1 - (attempt + 1)) (url c)"
    using more by (simp add: Suc_diff_le flip: replicate_Suc)
  with res w5 more show ?case by (auto simp add: step)
qed

text \<open>A call through a breaker counts no more than its operation does.\<close>

lemma execute_counts_at_most:
  assumes "refreshes w \<le> refreshes (snd (operation w)) \<and> refreshes (snd (operation w)) \<le> refreshes w + a"
    and "requests w \<le> requests (snd (operation w)) \<and> requests (snd (operation w)) \<le> requests w + b"
  shows "refreshes w \<le> refreshes (snd (execute this operation w)) \<and>
         refreshes (snd (execute this operation w)) \<le> refreshes w + a \<and>
         requests w \<le> requests (snd (execute this operation w)) \<and>
         requests (snd (execute this operation w)) \<le> requests w + b"
  using assms by (auto simp: execute_def split: prod.splits sum.splits)

text \<open>
  Whatever the network answers, one call of \<open>request\<close> refreshes the token at most
  once and enters \<open>request\<close> at most twice, itself included.
\<close>

lemma request_counters:
  "refreshes w \<le> refreshes (snd (request c w)) \<and>
   refreshes (snd (request c w)) \<le> refreshes w + 1 \<and>
   requests w + 1 \<le> requests (snd (request c w)) \<and>
   requests (snd (request c w)) \<le> requests w + 2"
  "refreshes w \<le> refreshes (snd (executeRequest c w)) \<and>
   refreshes (snd (executeRequest c w)) \<le> refreshes w + 1 \<and>
   requests w \<le> requests (snd (executeRequest c w)) \<and>
   requests (snd (executeRequest c w)) \<le> requests w + 1"
  "refreshes w \<le> refreshes (snd (attempt_loop c attempt le w)) \<and>
   refreshes (snd (attempt_loop c attempt le w)) \<le> refreshes w + 1 \<and>
   requests w \<le> requests (snd (attempt_loop c attempt le w)) \<and>
   requests (snd (attempt_loop c attempt le w)) \<le> requests w + 1"
proof (induction c w and c w and c attempt le w rule: request_executeRequest_attempt_loop.induct)
  case (1 c w)
  obtain pc w1 where ri: "request_interceptor c (w\<lparr>requests := requests w + 1\<rparr>) = (pc, w1)"
    by fastforce
  note fr = request_interceptor_frame[OF ri]
  show ?case
  proof (cases "circuitBreakers w1 (getServiceFromUrl (url pc))")
    case None
    have "request c w = executeRequest pc w1"
      by (simp only: request.simps[of c w] ri prod.case None option.case)
    with "1.IH"(1)[OF ri[symmetric] None] fr show ?thesis by simp
  next
    case (Some cb)
    note ih = "1.IH"(2)[OF ri[symmetric] Some, of w1]
    have "request c w = execute cb (executeRequest pc) w1"
      by (simp only: request.simps[of c w] ri prod.case Some option.case)
    with execute_counts_at_most[of w1 "executeRequest pc" 1 1 cb] ih fr show ?thesis
      by simp
  qed
next
  case (2 c w)
  then show ?case by (simp add: executeRequest.simps)
next
  case (3 c attempt le w)
  show ?case
  proof (cases "attempt \<le> retries_of c")
    case False
    then show ?thesis by (simp add: attempt_loop.simps[of c attempt le w] split: option.splits)
  next
    case True
    obtain r w1 where ta: "try_attempt c w = (r, w1)" by fastforce
    note f1 = try_attempt_frame[OF ta]
    show ?thesis
    proof (cases r)
      case (Inr v)
      with attempt_loop_success[OF True, of w v w1 le] ta f1 show ?thesis by simp
    next
      case (Inl e)
      note ta' = ta[unfolded Inl]
      obtain e1 w2 where rei: "response_error_interceptor e c w1 = (e1, w2)" by fastforce
      note f2 = response_error_interceptor_frame[OF rei]
      show ?thesis
      proof (cases "status e = Some 401 \<and> \<not> retry_flag c")
        case False
        then have nr: "status e \<noteq> Some 401 \<or> retry_flag c" by blast
        note step = attempt_loop_rethrown[OF True ta' rei nr, of le]
        show ?thesis
        proof (cases "attempt < retries_of c \<and> shouldRetry e")
          case False
          with step f1 f2 show ?thesis by auto
        next
          case retry: True
          define w5 where "w5 = sleep (calculateRetryDelay attempt (retryDelay_of c) (random w2 (draws w2)))
                        (w2\<lparr>draws := draws w2 + 1\<rparr>)"
          have w5: "refreshes w5 = refreshes w" "requests w5 = requests w"
            using f1 f2 by (simp_all add: w5_def sleep_def)
          have ih: "refreshes w5 \<le> refreshes (snd (attempt_loop c (attempt + 1) (Some e) w5)) \<and>
                refreshes (snd (attempt_loop c (attempt + 1) (Some e) w5)) \<le> refreshes w5 + 1 \<and>
                requests w5 \<le> requests (snd (attempt_loop c (attempt + 1) (Some e) w5)) \<and>
                requests (snd (attempt_loop c (attempt + 1) (Some e) w5)) \<le> requests w5 + 1"
            using "3.IH"(2)[OF True ta'[symmetric] refl rei[symmetric], of "Inl e" "(c, w2)" e c w2]
              nr retry unfolding w5_def by (auto simp add: Let_def)
          from step retry have "attempt_loop c attempt le w = attempt_loop c (attempt + 1) (Some e) w5"
            by (simp add: w5_def)
          with ih w5 show ?thesis by simp
        qed
      next
        case True
        then have st: "status e = Some 401" and nf: "\<not> retry_flag c" by blast+
        note no = unauthorized_not_retried[OF ta' st]
        obtain rr w3 where rt: "refreshToken_call w2 = (rr, w3)" by fastforce
        note f3 = refreshToken_call_frame[OF rt]
        show ?thesis
        proof (cases rr)
          case (Inl refreshError)
          from attempt_loop_refresh_failed[OF \<open>attempt \<le> retries_of c\<close> ta' rei st nf rt[unfolded Inl], of le] no
          have "attempt_loop c attempt le w = (Inl refreshError, handleAuthenticationFailure w3)"
            by simp
          with f1 f2 f3 show ?thesis by (simp add: handleAuthenticationFailure_frame)
        next
          case (Inr newToken)
          obtain r4 w4 where rq: "request (c\<lparr>retry_flag := True\<rparr>) w3 = (r4, w4)" by fastforce
          from attempt_loop_reissued[OF \<open>attempt \<le> retries_of c\<close> ta' rei st nf rt[unfolded Inr] rq, of le] no
          have res: "attempt_loop c attempt le w = (r4, w4)"
            by (cases r4) simp_all
          from retried_counters(1)[of "c\<lparr>retry_flag := True\<rparr>" w3] rq
          have "refreshes w4 = refreshes w3" "requests w4 = requests w3 + 1" by simp_all
          with res f1 f2 f3 show ?thesis by simp
        qed
      qed
    qed
  qed
qed

text \<open>
  \<open>executeRequest\<close> with the built-in interceptors. When each of the \<open>retries + 1\<close>
  attempts is answered 500, it fetches the URL exactly \<open>retries + 1\<close> times, sleeps
  \<open>retries\<close> times in between and throws the error of the last attempt. When the first
  attempt is answered 404 with a body that does not parse to \<open>null\<close>, it fetches once,
  does not sleep and throws the \<open>APIError\<close> of that answer.
\<close>

lemma executeRequest_by_status:
  "((\<forall>k \<le> retries_of c.
        \<exists>latency r. net w (length (fetched w) + k) (url c) = (latency, Responds r) \<and>
                    http_status r = 500) \<longrightarrow>
      (\<exists>e w'. executeRequest c w = (Inl e, w') \<and>
          (status e = Some 500 \<or> e = null_TypeError) \<and>
          fetched w' = fetched w @ replicate (retries_of c + 1) (url c) \<and>
          length (slept w') = length (slept w) + retries_of c)) \<and>
   ((\<exists>latency r. net w (length (fetched w)) (url c) = (latency, Responds r) \<and>
                  http_status r = 404 \<and> body r \<noteq> Some JsonNull) \<longrightarrow>
      (\<exists>m cd w'. executeRequest c w = (Inl (APIError m 404 cd), w') \<and>
          fetched w' = fetched w @ [url c] \<and> slept w' = slept w))"
proof (intro conjI impI)
  assume "\<forall>k \<le> retries_of c.
        \<exists>latency r. net w (length (fetched w) + k) (url c) = (latency, Responds r) \<and>
                    http_status r = 500"
  then have "\<forall>k \<le> retries_of c - 0.
        \<exists>latency r. net w (length (fetched w) + k) (url c) = (latency, Responds r) \<and>
                    http_status r = 500" by simp
  from server_error_loop[OF _ this, of None]
  show "\<exists>e w'. executeRequest c w = (Inl e, w') \<and>
          (status e = Some 500 \<or> e = null_TypeError) \<and>
          fetched w' = fetched w @ replicate (retries_of c + 1) (url c) \<and>
          length (slept w') = length (slept w) + retries_of c"
    by (auto simp: executeRequest.simps)
next
  assume "\<exists>latency r. net w (length (fetched w)) (url c) = (latency, Responds r) \<and>
                  http_status r = 404 \<and> body r \<noteq> Some JsonNull"
  then obtain latency r
    where r: "net w (length (fetched w)) (url c) = (latency, Responds r)" "http_status r = 404"
      "body r \<noteq> Some JsonNull"
    by blast
  then have nok: "\<not> ok r" by (simp add: ok_def)
  from try_attempt_http_error[OF r(1) nok r(3)] r(2) obtain m cd w1
    where ta: "try_attempt c w = (Inl (APIError m 404 cd), w1)" by auto
  obtain e1 w2 where rei: "response_error_interceptor (APIError m 404 cd) c w1 = (e1, w2)"
    by fastforce
  have "status (APIError m 404 cd) \<noteq> Some 401 \<or> retry_flag c" by (simp add: APIError_def)
  from attempt_loop_rethrown[OF _ ta rei this, of 0 None]
  have "executeRequest c w = (Inl (APIError m 404 cd), w2)"
    by (simp add: executeRequest.simps shouldRetry_def APIError_def)
  with try_attempt_frame[OF ta] response_error_interceptor_frame[OF rei]
  show "\<exists>m cd w'. executeRequest c w = (Inl (APIError m 404 cd), w') \<and>
          fetched w' = fetched w @ [url c] \<and> slept w' = slept w"
    by auto
qed

lemmas client_defs = request_interceptor_def fetch_def try_attempt_def response_error_interceptor_def
  response_success_interceptor_def refreshToken_call_def handleAuthenticationFailure_def
  parseErrorResponse_def execute_def new_APIClient_def initializeCircuitBreakers_def
  getServiceFromUrl_def answering_def response_def products_config_def retries_of_def
  maxRetries_def ok_def APIError_def Error_def onFailure_def onSuccess_def new_CircuitBreaker_def
  updateMetrics_def initial_metrics_def average_def shouldRetry_def null_TypeError_def
  retryDelay_of_def default_retryDelay_def calculateRetryDelay_def sleep_def

text \<open>
  C5 on the code. The first three facts are one run of \<open>executeRequest\<close> with a retry
  budget of 2 in which every \<open>fetch\<close> is answered 404 with the body \<open>null\<close> and every
  jitter draw is 0: \<open>parseErrorResponse\<close> returns \<open>null\<close>, reading \<open>errorData.message\<close>
  throws a \<open>TypeError\<close> inside the \<open>try\<close> before any \<open>APIError\<close> is built, \<open>shouldRetry\<close>
  accepts a \<open>TypeError\<close>, and so the URL is fetched three times, with sleeps of 1000 and
  2000 milliseconds in between, and the \<open>TypeError\<close> is thrown. The next three facts are
  the same run entered through \<open>request\<close> on a new client. The last three facts are the
  run of \<open>executeRequest\<close> with a 404 that has no JSON body: one fetch, no sleep, the
  \<open>APIError\<close> with status 404 thrown, which is what C5 states for every 404.
\<close>

theorem not_found_null_body_retried:
  "fst (executeRequest products_config (answering ((response 404)\<lparr>body := Some JsonNull\<rparr>))) =
     Inl null_TypeError \<and>
   fetched (snd (executeRequest products_config
                   (answering ((response 404)\<lparr>body := Some JsonNull\<rparr>)))) =
     [''/api/products'', ''/api/products'', ''/api/products''] \<and>
   slept (snd (executeRequest products_config
                 (answering ((response 404)\<lparr>body := Some JsonNull\<rparr>)))) = [1000, 2000] \<and>
   fst (request products_config
          (new_APIClient (answering ((response 404)\<lparr>body := Some JsonNull\<rparr>)))) =
     Inl null_TypeError \<and>
   fetched (snd (request products_config
          (new_APIClient (answering ((response 404)\<lparr>body := Some JsonNull\<rparr>))))) =
     [''/api/products'', ''/api/products'', ''/api/products''] \<and>
   slept (snd (request products_config
          (new_APIClient (answering ((response 404)\<lparr>body := Some JsonNull\<rparr>))))) = [1000, 2000] \<and>
   fst (executeRequest products_config (answering (response 404))) =
     Inl (APIError ''Unknown error'' 404 ''UNKNOWN_ERROR'') \<and>
   fetched (snd (executeRequest products_config (answering (response 404)))) =
     [''/api/products''] \<and>
   slept (snd (executeRequest products_config (answering (response 404)))) = []"
  by (simp add: request.simps executeRequest.simps attempt_loop.simps[where attempt = 0]
       attempt_loop.simps[where attempt = "Suc 0"]
       attempt_loop.simps[where attempt = "Suc (Suc 0)"]
       client_defs Let_def)

text \<open>
  \<open>includes_str\<close> is the substring test, so a URL without \<open>/products\<close> has no
  \<open>/api/products\<close> either.
\<close>

lemma includes_str_iff: "includes_str s sub \<longleftrightarrow> (\<exists>p q. s = p @ sub @ q)"
proof (induction s)
  case Nil
  show ?case by auto
next
  case (Cons a s)
  show ?case
  proof
    assume "includes_str (a # s) sub"
    then consider "take (length sub) (a # s) = sub" | "includes_str s sub" by auto
    then show "\<exists>p q. a # s = p @ sub @ q"
    proof cases
      case 1
      then have "a # s = [] @ sub @ drop (length sub) (a # s)"
        by (metis append_Nil append_take_drop_id)
      then show ?thesis by blast
    next
      case 2
      with Cons.IH obtain p q where "s = p @ sub @ q" by blast
      then have "a # s = (a # p) @ sub @ q" by simp
      then show ?thesis by blast
    qed
  next
    assume "\<exists>p q. a # s = p @ sub @ q"
    then obtain p q where pq: "a # s = p @ sub @ q" by blast
    show "includes_str (a # s) sub"
    proof (cases p)
      case Nil
      with pq have "take (length sub) (a # s) = sub" by simp
      then show ?thesis by simp
    next
      case (Cons b p')
      with pq have "s = p' @ sub @ q" by simp
      with Cons.IH show ?thesis by auto
    qed
  qed
qed

lemma includes_str_suffix:
  "includes_str s (pre @ sub) \<Longrightarrow> includes_str s sub"
  unfolding includes_str_iff by (metis append.assoc)

lemma getServiceFromUrl_unknown:
  assumes "\<not> includes_str u ''/products''" "\<not> includes_str u ''/auth''" "\<not> includes_str u ''/orders''"
  shows "getServiceFromUrl u = ''unknown''"
proof -
  have "\<not> includes_str u ''/api/products''"
    using includes_str_suffix[of u "''/api''" "''/products''"] assms(1) by auto
  moreover have "\<not> includes_str u ''/api/auth''"
    using includes_str_suffix[of u "''/api''" "''/auth''"] assms(2) by auto
  moreover have "\<not> includes_str u ''/api/orders''"
    using includes_str_suffix[of u "''/api''" "''/orders''"] assms(3) by auto
  ultimately show ?thesis using assms by (simp add: getServiceFromUrl_def)
qed

text \<open>The breakers the constructor creates.\<close>

lemma new_APIClient_breakers:
  "circuitBreakers (new_APIClient w) = [''products'' \<mapsto> 0, ''auth'' \<mapsto> 1, ''orders'' \<mapsto> 2]"
  "heap (new_APIClient w) 0 = new_CircuitBreaker 5 60000 10000 (clock w)"
  "heap (new_APIClient w) 1 = new_CircuitBreaker 5 60000 10000 (clock w)"
  "heap (new_APIClient w) 2 = new_CircuitBreaker 5 60000 10000 (clock w)"
  by (simp_all add: new_APIClient_def initializeCircuitBreakers_def numeral_2_eq_2)

text \<open>
  Neither an attempt nor a refresh throws the error of a breaker's rejection.
\<close>

lemma try_attempt_not_rejection:
  "try_attempt c w = (Inl e, w1) \<Longrightarrow> e \<noteq> circuit_open_error"
  by (auto simp: try_attempt_def fetch_def response_success_interceptor_def Let_def APIError_def
        json_SyntaxError_def headers_TypeError_def null_TypeError_def circuit_open_error_def
        Error_def
        split: prod.splits sum.splits if_splits option.splits fetch_outcome.splits
          json_value.splits)

lemma refreshToken_call_not_rejection:
  "refreshToken_call w = (Inl e, w1) \<Longrightarrow> e \<noteq> circuit_open_error"
  by (auto simp: refreshToken_call_def fetch_def Let_def
        json_SyntaxError_def null_TypeError_def circuit_open_error_def Error_def
        split: prod.splits sum.splits if_splits option.splits fetch_outcome.splits
          json_value.splits)


text \<open>
  A request to a service without a breaker, from start to end, re-issue included: no
  breaker object and no entry of the breaker map changes, the URL is fetched, and the
  error thrown, if any, is not a breaker's rejection.
\<close>

lemma unknown_service_frame:
  "circuitBreakers w (getServiceFromUrl (url c)) = None \<longrightarrow>
     heap (snd (request c w)) = heap w \<and>
     circuitBreakers (snd (request c w)) = circuitBreakers w \<and>
     (\<exists>rest. fetched (snd (request c w)) = fetched w @ url c # rest) \<and>
     fst (request c w) \<noteq> Inl circuit_open_error"
  "circuitBreakers w (getServiceFromUrl (url c)) = None \<longrightarrow>
     heap (snd (executeRequest c w)) = heap w \<and>
     circuitBreakers (snd (executeRequest c w)) = circuitBreakers w \<and>
     (\<exists>rest. fetched (snd (executeRequest c w)) = fetched w @ url c # rest) \<and>
     fst (executeRequest c w) \<noteq> Inl circuit_open_error"
  "circuitBreakers w (getServiceFromUrl (url c)) = None \<and> attempt \<le> retries_of c \<longrightarrow>
     heap (snd (attempt_loop c attempt le w)) = heap w \<and>
     circuitBreakers (snd (attempt_loop c attempt le w)) = circuitBreakers w \<and>
     (\<exists>rest. fetched (snd (attempt_loop c attempt le w)) = fetched w @ url c # rest) \<and>
     fst (attempt_loop c attempt le w) \<noteq> Inl circuit_open_error"
proof (induction c w and c w and c attempt le w rule: request_executeRequest_attempt_loop.induct)
  case (1 c w)
  show ?case
  proof
    assume none: "circuitBreakers w (getServiceFromUrl (url c)) = None"
    obtain pc w1 where ri: "request_interceptor c (w\<lparr>requests := requests w + 1\<rparr>) = (pc, w1)"
      by fastforce
    note fr = request_interceptor_frame[OF ri]
    from fr none have none1: "circuitBreakers w1 (getServiceFromUrl (url pc)) = None" by simp
    have "request c w = executeRequest pc w1"
      by (simp only: request.simps[of c w] ri prod.case none1 option.case)
    with "1.IH"(1)[OF ri[symmetric] none1] none1 fr
    show "heap (snd (request c w)) = heap w \<and>
     circuitBreakers (snd (request c w)) = circuitBreakers w \<and>
     (\<exists>rest. fetched (snd (request c w)) = fetched w @ url c # rest) \<and>
     fst (request c w) \<noteq> Inl circuit_open_error" by simp
  qed
next
  case (2 c w)
  then show ?case by (simp add: executeRequest.simps)
next
  case (3 c attempt le w)
  show ?case
  proof
    assume "circuitBreakers w (getServiceFromUrl (url c)) = None \<and> attempt \<le> retries_of c"
    then have none: "circuitBreakers w (getServiceFromUrl (url c)) = None"
      and True: "attempt \<le> retries_of c" by blast+
    obtain r w1 where ta: "try_attempt c w = (r, w1)" by fastforce
    note f1 = try_attempt_frame[OF ta]
    show "heap (snd (attempt_loop c attempt le w)) = heap w \<and>
     circuitBreakers (snd (attempt_loop c attempt le w)) = circuitBreakers w \<and>
     (\<exists>rest. fetched (snd (attempt_loop c attempt le w)) = fetched w @ url c # rest) \<and>
     fst (attempt_loop c attempt le w) \<noteq> Inl circuit_open_error"
    proof (cases r)
      case (Inr v)
      with attempt_loop_success[OF True, of w v w1 le] ta f1 show ?thesis by simp
    next
      case (Inl e)
      note ta' = ta[unfolded Inl]
      note ne = try_attempt_not_rejection[OF ta']
      obtain e1 w2 where rei: "response_error_interceptor e c w1 = (e1, w2)" by fastforce
      note f2 = response_error_interceptor_frame[OF rei]
      show ?thesis
      proof (cases "status e = Some 401 \<and> \<not> retry_flag c")
        case False
        then have nr: "status e \<noteq> Some 401 \<or> retry_flag c" by blast
        note step = attempt_loop_rethrown[OF True ta' rei nr, of le]
        show ?thesis
        proof (cases "attempt < retries_of c \<and> shouldRetry e")
          case False
          with step f1 f2 ne show ?thesis by auto
        next
          case retry: True
          define w5 where "w5 = sleep (calculateRetryDelay attempt (retryDelay_of c) (random w2 (draws w2)))
                        (w2\<lparr>draws := draws w2 + 1\<rparr>)"
          have w5: "heap w5 = heap w" "circuitBreakers w5 = circuitBreakers w"
            "fetched w5 = fetched w @ [url c]"
            using f1 f2 by (simp_all add: w5_def sleep_def)
          have ih: "circuitBreakers w5 (getServiceFromUrl (url c)) = None \<and> attempt + 1 \<le> retries_of c \<longrightarrow>
                heap (snd (attempt_loop c (attempt + 1) (Some e) w5)) = heap w5 \<and>
                circuitBreakers (snd (attempt_loop c (attempt + 1) (Some e) w5)) = circuitBreakers w5 \<and>
                (\<exists>rest. fetched (snd (attempt_loop c (attempt + 1) (Some e) w5)) = fetched w5 @ url c # rest) \<and>
                fst (attempt_loop c (attempt + 1) (Some e) w5) \<noteq> Inl circuit_open_error"
            using "3.IH"(2)[OF True ta'[symmetric] refl rei[symmetric], of "Inl e" "(c, w2)" e c w2]
              nr retry unfolding w5_def by (auto simp add: Let_def)
          from step retry have "attempt_loop c attempt le w = attempt_loop c (attempt + 1) (Some e) w5"
            by (simp add: w5_def)
          with ih w5 none retry show ?thesis by auto
        qed
      next
        case True
        then have st: "status e = Some 401" and nf: "\<not> retry_flag c" by blast+
        note no = unauthorized_not_retried[OF ta' st]
        obtain rr w3 where rt: "refreshToken_call w2 = (rr, w3)" by fastforce
        note f3 = refreshToken_call_frame[OF rt]
        have f3': "\<exists>more. fetched w3 = fetched w2 @ more"
          using rt by (auto simp: refreshToken_call_def Let_def
           split: prod.splits sum.splits if_splits option.splits json_value.splits
           dest!: fetch_frame)
        show ?thesis
        proof (cases rr)
          case (Inl refreshError)
          from attempt_loop_refresh_failed[OF \<open>attempt \<le> retries_of c\<close> ta' rei st nf rt[unfolded Inl], of le] no
          have "attempt_loop c attempt le w = (Inl refreshError, handleAuthenticationFailure w3)"
            by simp
          with f1 f2 f3 f3' refreshToken_call_not_rejection[OF rt[unfolded Inl]] show ?thesis
            by (auto simp add: handleAuthenticationFailure_frame)
        next
          case (Inr newToken)
          obtain r4 w4 where rq: "request (c\<lparr>retry_flag := True\<rparr>) w3 = (r4, w4)" by fastforce
          from attempt_loop_reissued[OF \<open>attempt \<le> retries_of c\<close> ta' rei st nf rt[unfolded Inr] rq, of le] no
          have res: "attempt_loop c attempt le w = (r4, w4)"
            by (cases r4) simp_all
          have none3: "circuitBreakers w3 (getServiceFromUrl (url (c\<lparr>retry_flag := True\<rparr>))) = None"
            using none f1 f2 f3 by simp
          from "3.IH"(1)[OF \<open>attempt \<le> retries_of c\<close> ta'[symmetric] refl rei[symmetric] True
              rt[symmetric] Inr] none3 rq
          have "heap w4 = heap w3" "circuitBreakers w4 = circuitBreakers w3"
            "\<exists>rest. fetched w4 = fetched w3 @ url c # rest" "r4 \<noteq> Inl circuit_open_error"
            by simp_all
          with res f1 f2 f3 f3' show ?thesis by auto
        qed
      qed
    qed
  qed
qed

text \<open>
  A request that carries \<open>_retry\<close>, is let through by its breaker and is answered 401
  with a body that does not parse to \<open>null\<close> throws that 401.
\<close>

lemma retried_unauthorized_request:
  assumes "retry_flag c"
    and "net w (length (fetched w)) (url c) = (latency, Responds r)" and "http_status r = 401"
    and "body r \<noteq> Some JsonNull"
    and "\<forall>cb. circuitBreakers w (getServiceFromUrl (url c)) = Some cb \<longrightarrow> state (heap w cb) \<noteq> OPEN"
  shows "\<exists>m cd. fst (request c w) = Inl (APIError m 401 cd)"
proof -
  obtain pc w1 where ri: "request_interceptor c (w\<lparr>requests := requests w + 1\<rparr>) = (pc, w1)"
    by fastforce
  note fr = request_interceptor_frame[OF ri]
  from fr assms(1,2) have flag: "retry_flag pc"
    and net1: "net w1 (length (fetched w1)) (url pc) = (latency, Responds r)" by simp_all
  from assms(3) have nok: "\<not> ok r" by (simp add: ok_def)
  from try_attempt_http_error[OF net1 nok assms(4)] assms(3) obtain m cd w2
    where ta: "try_attempt pc w1 = (Inl (APIError m 401 cd), w2)" by auto
  obtain e1 w3 where rei: "response_error_interceptor (APIError m 401 cd) pc w2 = (e1, w3)"
    by fastforce
  have st: "status (APIError m 401 cd) = Some 401" by (simp add: APIError_def)
  from attempt_loop_rethrown[OF _ ta rei, of 0 None] flag unauthorized_not_retried[OF ta st]
  have ex: "executeRequest pc w1 = (Inl (APIError m 401 cd), w3)"
    by (simp add: executeRequest.simps)
  show ?thesis
  proof (cases "circuitBreakers w1 (getServiceFromUrl (url pc))")
    case None
    have "request c w = executeRequest pc w1"
      by (simp only: request.simps[of c w] ri prod.case None option.case)
    with ex show ?thesis by auto
  next
    case (Some cb)
    have "request c w = execute cb (executeRequest pc) w1"
      by (simp only: request.simps[of c w] ri prod.case Some option.case)
    moreover from Some fr assms(5) have "state (heap w1 cb) \<noteq> OPEN" by simp
    ultimately show ?thesis
      using execute_failure[where operation = "executeRequest pc" and w = w1 and this = cb, OF _ ex]
      by auto
  qed
qed

text \<open>
  C7, as the code has it. Take an attempt whose \<open>fetch\<close> is answered 401 with a body
  that does not parse to \<open>null\<close>, so that the attempt throws an \<open>APIError\<close> with status
  401. When \<open>_retry\<close> is set on the configuration, the loop throws that error at once:
  no refresh, no further call of \<open>request\<close>. When \<open>_retry\<close> is unset, \<open>refreshToken\<close> is
  called exactly once in all that follows. If the refresh throws, \<open>request\<close> is not
  called again: the session is invalidated and the loop throws the refresh error. If the
  refresh succeeds, \<open>request\<close> is called exactly once more, with \<open>_retry\<close> set, and the
  loop ends with whatever that call returns or throws. Whatever the network answers, one
  call of \<open>request\<close> refreshes at most once and enters \<open>request\<close> at most twice. And a
  request that carries \<open>_retry\<close>, is let through by its breaker and is answered such a
  401 throws that 401 without a refresh and without a further request.
\<close>

theorem unauthorized_refresh_once:
  assumes "attempt \<le> retries_of c"
    and "net w (length (fetched w)) (url c) = (latency, Responds r)"
    and "http_status r = 401" and "body r \<noteq> Some JsonNull"
  shows "(\<exists>e w1 e1 w2.
            try_attempt c w = (Inl e, w1) \<and> status e = Some 401 \<and>
            response_error_interceptor e c w1 = (e1, w2) \<and>
            (retry_flag c \<longrightarrow>
               attempt_loop c attempt le w = (Inl e, w2) \<and>
               refreshes w2 = refreshes w \<and> requests w2 = requests w) \<and>
            (\<not> retry_flag c \<longrightarrow>
               refreshes (snd (attempt_loop c attempt le w)) = refreshes w + 1 \<and>
               (\<forall>refreshError w3. refreshToken_call w2 = (Inl refreshError, w3) \<longrightarrow>
                  attempt_loop c attempt le w = (Inl refreshError, handleAuthenticationFailure w3) \<and>
                  requests (handleAuthenticationFailure w3) = requests w \<and>
                  storage_user (handleAuthenticationFailure w3) = None) \<and>
               (\<forall>newToken w3. refreshToken_call w2 = (Inr newToken, w3) \<longrightarrow>
                  attempt_loop c attempt le w = request (c\<lparr>retry_flag := True\<rparr>) w3 \<and>
                  requests (snd (attempt_loop c attempt le w)) = requests w + 1))) \<and>
         refreshes (snd (request c w)) \<le> refreshes w + 1 \<and>
         requests (snd (request c w)) \<le> requests w + 2 \<and>
         (retry_flag c \<and>
          (\<forall>cb. circuitBreakers w (getServiceFromUrl (url c)) = Some cb \<longrightarrow>
                  state (heap w cb) \<noteq> OPEN) \<longrightarrow>
            (\<exists>m cd. fst (request c w) = Inl (APIError m 401 cd)) \<and>
            refreshes (snd (request c w)) = refreshes w \<and>
            requests (snd (request c w)) = requests w + 1)"
proof -
  from assms(3) have nok: "\<not> ok r" by (simp add: ok_def)
  from try_attempt_http_error[OF assms(2) nok assms(4)] assms(3) obtain m cd w1
    where ta: "try_attempt c w = (Inl (APIError m 401 cd), w1)" by auto
  define e where "e = APIError m 401 cd"
  have st: "status e = Some 401" by (simp add: e_def APIError_def)
  note ta' = ta[folded e_def]
  obtain e1 w2 where rei: "response_error_interceptor e c w1 = (e1, w2)" by fastforce
  note f1 = try_attempt_frame[OF ta'] and f2 = response_error_interceptor_frame[OF rei]
  note no = unauthorized_not_retried[OF ta' st]
  have retried: "attempt_loop c attempt le w = (Inl e, w2) \<and>
               refreshes w2 = refreshes w \<and> requests w2 = requests w" if "retry_flag c"
    using attempt_loop_rethrown[OF assms(1) ta' rei, of le] that no f1 f2 by simp
  have fresh: "refreshes (snd (attempt_loop c attempt le w)) = refreshes w + 1 \<and>
               (\<forall>refreshError w3. refreshToken_call w2 = (Inl refreshError, w3) \<longrightarrow>
                  attempt_loop c attempt le w = (Inl refreshError, handleAuthenticationFailure w3) \<and>
                  requests (handleAuthenticationFailure w3) = requests w \<and>
                  storage_user (handleAuthenticationFailure w3) = None) \<and>
               (\<forall>newToken w3. refreshToken_call w2 = (Inr newToken, w3) \<longrightarrow>
                  attempt_loop c attempt le w = request (c\<lparr>retry_flag := True\<rparr>) w3 \<and>
                  requests (snd (attempt_loop c attempt le w)) = requests w + 1)" if nf: "\<not> retry_flag c"
  proof -
    have failed: "attempt_loop c attempt le w = (Inl refreshError, handleAuthenticationFailure w3) \<and>
                  requests (handleAuthenticationFailure w3) = requests w \<and>
                  refreshes (handleAuthenticationFailure w3) = refreshes w + 1 \<and>
                  storage_user (handleAuthenticationFailure w3) = None"
      if rt: "refreshToken_call w2 = (Inl refreshError, w3)" for refreshError w3
      using attempt_loop_refresh_failed[OF assms(1) ta' rei st nf rt, of le] no f1 f2
        refreshToken_call_frame[OF rt]
      by (simp add: handleAuthenticationFailure_def)
    have reissued: "attempt_loop c attempt le w = request (c\<lparr>retry_flag := True\<rparr>) w3 \<and>
                  requests (snd (attempt_loop c attempt le w)) = requests w + 1 \<and>
                  refreshes (snd (attempt_loop c attempt le w)) = refreshes w + 1"
      if rt: "refreshToken_call w2 = (Inr newToken, w3)" for newToken w3
    proof -
      obtain r4 w4 where rq: "request (c\<lparr>retry_flag := True\<rparr>) w3 = (r4, w4)" by fastforce
      from attempt_loop_reissued[OF assms(1) ta' rei st nf rt rq, of le] no
      have res: "attempt_loop c attempt le w = (r4, w4)" by (cases r4) simp_all
      from retried_counters(1)[of "c\<lparr>retry_flag := True\<rparr>" w3] rq
      have "refreshes w4 = refreshes w3" "requests w4 = requests w3 + 1" by simp_all
      with res rq f1 f2 refreshToken_call_frame[OF rt] show ?thesis by simp
    qed
    obtain rr w3 where rt: "refreshToken_call w2 = (rr, w3)" by fastforce
    have "refreshes (snd (attempt_loop c attempt le w)) = refreshes w + 1"
    proof (cases rr)
      case (Inl refreshError)
      with failed[of refreshError w3] rt show ?thesis by auto
    next
      case (Inr newToken)
      with reissued[of newToken w3] rt show ?thesis by blast
    qed
    with failed reissued show ?thesis by blast
  qed
  have attempt_level: "\<exists>e w1 e1 w2.
            try_attempt c w = (Inl e, w1) \<and> status e = Some 401 \<and>
            response_error_interceptor e c w1 = (e1, w2) \<and>
            (retry_flag c \<longrightarrow>
               attempt_loop c attempt le w = (Inl e, w2) \<and>
               refreshes w2 = refreshes w \<and> requests w2 = requests w) \<and>
            (\<not> retry_flag c \<longrightarrow>
               refreshes (snd (attempt_loop c attempt le w)) = refreshes w + 1 \<and>
               (\<forall>refreshError w3. refreshToken_call w2 = (Inl refreshError, w3) \<longrightarrow>
                  attempt_loop c attempt le w = (Inl refreshError, handleAuthenticationFailure w3) \<and>
                  requests (handleAuthenticationFailure w3) = requests w \<and>
                  storage_user (handleAuthenticationFailure w3) = None) \<and>
               (\<forall>newToken w3. refreshToken_call w2 = (Inr newToken, w3) \<longrightarrow>
                  attempt_loop c attempt le w = request (c\<lparr>retry_flag := True\<rparr>) w3 \<and>
                  requests (snd (attempt_loop c attempt le w)) = requests w + 1))"
    using ta' st rei retried fresh by blast
  have request_level: "(\<exists>m cd. fst (request c w) = Inl (APIError m 401 cd)) \<and>
            refreshes (snd (request c w)) = refreshes w \<and>
            requests (snd (request c w)) = requests w + 1"
    if "retry_flag c \<and>
          (\<forall>cb. circuitBreakers w (getServiceFromUrl (url c)) = Some cb \<longrightarrow>
                  state (heap w cb) \<noteq> OPEN)"
    using retried_unauthorized_request[OF _ assms(2,3,4), of] retried_counters(1)[of c w] that
    by blast
  from attempt_level request_counters(1)[of w c] request_level show ?thesis by blast
qed

theorem unauthorized_refresh_once_witness:
  "fst (request products_config (new_APIClient refreshing_world)) =
     Inl (APIError ''Unknown error'' 401 ''UNKNOWN_ERROR'') \<and>
   refreshes (snd (request products_config (new_APIClient refreshing_world))) = 1 \<and>
   requests (snd (request products_config (new_APIClient refreshing_world))) = 2 \<and>
   fetched (snd (request products_config (new_APIClient refreshing_world))) =
     [''/api/products'', ''/api/auth/refresh'', ''/api/products''] \<and>
   refreshes (snd (attempt_loop products_config 0 None refreshing_world)) = 1 \<and>
   requests (snd (attempt_loop products_config 0 None refreshing_world)) = 1 \<and>
   refreshes (snd (attempt_loop (products_config\<lparr>retry_flag := True\<rparr>) 0 None refreshing_world)) = 0 \<and>
   requests (snd (attempt_loop (products_config\<lparr>retry_flag := True\<rparr>) 0 None refreshing_world)) = 0"
proof -
  let ?c = products_config and ?w = refreshing_world
  have h1: "0 \<le> retries_of ?c" "0 \<le> retries_of (?c\<lparr>retry_flag := True\<rparr>)" by simp_all
  have h2: "net ?w (length (fetched ?w)) (url ?c) = (3, Responds (response 401))"
    and h2': "net ?w (length (fetched ?w)) (url (?c\<lparr>retry_flag := True\<rparr>)) = (3, Responds (response 401))"
    by (simp_all add: refreshing_world_def answering_def products_config_def auth_refresh_url_def)
  have h3: "http_status (response 401) = 401" and h4: "body (response 401) \<noteq> Some JsonNull"
    by (simp_all add: response_def)
  have nf: "\<not> retry_flag ?c" "retry_flag (?c\<lparr>retry_flag := True\<rparr>)"
    by (simp_all add: products_config_def)
  have z: "refreshes ?w = 0" "requests ?w = 0"
    by (simp_all add: refreshing_world_def answering_def)
  from unauthorized_refresh_once[OF h1(1) h2 h3 h4, of None] nf(1)
  obtain e w1 e1 w2 where a: "try_attempt ?c ?w = (Inl e, w1)"
      "response_error_interceptor e ?c w1 = (e1, w2)"
      "refreshes (snd (attempt_loop ?c 0 None ?w)) = refreshes ?w + 1"
      "\<forall>newToken w3. refreshToken_call w2 = (Inr newToken, w3) \<longrightarrow>
          requests (snd (attempt_loop ?c 0 None ?w)) = requests ?w + 1"
    by blast
  have "\<exists>newToken w3. refreshToken_call w2 = (Inr newToken, w3)"
    using a(1,2) by (auto simp add: client_defs refreshing_world_def auth_refresh_url_def Let_def)
  with a(4) have b: "requests (snd (attempt_loop ?c 0 None ?w)) = requests ?w + 1" by blast
  from unauthorized_refresh_once[OF h1(2) h2' h3 h4, of None] nf(2)
  have c: "refreshes (snd (attempt_loop (?c\<lparr>retry_flag := True\<rparr>) 0 None ?w)) = refreshes ?w"
     "requests (snd (attempt_loop (?c\<lparr>retry_flag := True\<rparr>) 0 None ?w)) = requests ?w"
    by auto
  have run: "fst (request products_config (new_APIClient refreshing_world)) =
       Inl (APIError ''Unknown error'' 401 ''UNKNOWN_ERROR'') \<and>
     refreshes (snd (request products_config (new_APIClient refreshing_world))) = 1 \<and>
     requests (snd (request products_config (new_APIClient refreshing_world))) = 2 \<and>
     fetched (snd (request products_config (new_APIClient refreshing_world))) =
       [''/api/products'', ''/api/auth/refresh'', ''/api/products'']"
    by (simp add: request.simps executeRequest.simps attempt_loop.simps[where attempt = 0]
         client_defs refreshing_world_def auth_refresh_url_def Let_def)
  show ?thesis using run a(3) b c by (simp add: z)
qed

text \<open>
  C7 as stated fails when the refresh fails. Nobody is logged in and the products
  endpoint answers 401: \<open>refreshToken\<close> is called once and throws, \<open>request\<close> is entered
  once only, the URL is fetched once, and the caller gets the refresh error.
\<close>

theorem refresh_without_reissue_counterexample:
  "fst (request products_config (new_APIClient (answering (response 401)))) =
     Inl (Error ''No refresh token available'') \<and>
   refreshes (snd (request products_config (new_APIClient (answering (response 401))))) = 1 \<and>
   requests (snd (request products_config (new_APIClient (answering (response 401))))) = 1 \<and>
   fetched (snd (request products_config (new_APIClient (answering (response 401))))) =
     [''/api/products'']"
  by (simp add: request.simps executeRequest.simps attempt_loop.simps[where attempt = 0]
       client_defs Let_def)

text \<open>
  A 401 whose body is \<open>null\<close> never becomes an \<open>APIError\<close>: the attempt throws the
  \<open>TypeError\<close>, which carries no status, so the error interceptor does not refresh, and
  the loop retries it like a network error.
\<close>

lemma unauthorized_null_body_not_refreshed:
  "fst (request products_config
          (new_APIClient (answering ((response 401)\<lparr>body := Some JsonNull\<rparr>)))) =
     Inl null_TypeError \<and>
   refreshes (snd (request products_config
          (new_APIClient (answering ((response 401)\<lparr>body := Some JsonNull\<rparr>))))) = 0 \<and>
   requests (snd (request products_config
          (new_APIClient (answering ((response 401)\<lparr>body := Some JsonNull\<rparr>))))) = 1 \<and>
   fetched (snd (request products_config
          (new_APIClient (answering ((response 401)\<lparr>body := Some JsonNull\<rparr>))))) =
     [''/api/products'', ''/api/products'', ''/api/products'']"
  by (simp add: request.simps executeRequest.simps attempt_loop.simps[where attempt = 0]
       attempt_loop.simps[where attempt = "Suc 0"]
       attempt_loop.simps[where attempt = "Suc (Suc 0)"]
       client_defs Let_def)

text \<open>
  C10. The constructor creates exactly three breakers, for \<open>products\<close>, \<open>auth\<close> and
  \<open>orders\<close>, each with threshold 5, cooldown 60000 and monitoring period 10000. A URL
  that contains none of \<open>/products\<close>, \<open>/auth\<close>, \<open>/orders\<close> is routed to \<open>unknown\<close>,
  which has no breaker. A request whose service has no breaker goes straight to
  \<open>executeRequest\<close>: its URL is fetched whatever state the breakers are in, what it
  throws is never a breaker's rejection, and no breaker and no entry of the map changes.
\<close>

theorem unknown_service_bypasses_breakers:
  "circuitBreakers (new_APIClient w0) = [''products'' \<mapsto> 0, ''auth'' \<mapsto> 1, ''orders'' \<mapsto> 2] \<and>
   dom (circuitBreakers (new_APIClient w0)) = {''products'', ''auth'', ''orders''} \<and>
   (\<forall>ref \<in> {0, 1, 2}. heap (new_APIClient w0) ref = new_CircuitBreaker 5 60000 10000 (clock w0)) \<and>
   (\<not> includes_str u ''/products'' \<and> \<not> includes_str u ''/auth'' \<and> \<not> includes_str u ''/orders'' \<longrightarrow>
      getServiceFromUrl u = ''unknown'' \<and>
      circuitBreakers (new_APIClient w0) (getServiceFromUrl u) = None) \<and>
   (circuitBreakers w (getServiceFromUrl (url c)) = None \<longrightarrow>
      (\<exists>processedConfig w1.
          request_interceptor c (w\<lparr>requests := requests w + 1\<rparr>) = (processedConfig, w1) \<and>
          request c w = executeRequest processedConfig w1) \<and>
      heap (snd (request c w)) = heap w \<and>
      circuitBreakers (snd (request c w)) = circuitBreakers w \<and>
      (\<exists>rest. fetched (snd (request c w)) = fetched w @ url c # rest) \<and>
      fst (request c w) \<noteq> Inl circuit_open_error)"
proof -
  have a: "circuitBreakers (new_APIClient w0) = [''products'' \<mapsto> 0, ''auth'' \<mapsto> 1, ''orders'' \<mapsto> 2]"
    by (rule new_APIClient_breakers)
  have b: "dom (circuitBreakers (new_APIClient w0)) = {''products'', ''auth'', ''orders''}"
    unfolding a by auto
  have c: "\<forall>ref \<in> {0, 1, 2}. heap (new_APIClient w0) ref = new_CircuitBreaker 5 60000 10000 (clock w0)"
    using new_APIClient_breakers(2,3,4)[of w0] by auto
  have d: "getServiceFromUrl u = ''unknown'' \<and>
      circuitBreakers (new_APIClient w0) (getServiceFromUrl u) = None"
    if "\<not> includes_str u ''/products'' \<and> \<not> includes_str u ''/auth'' \<and> \<not> includes_str u ''/orders''"
    using getServiceFromUrl_unknown[of u] that by (simp add: a)
  have e: "(\<exists>processedConfig w1.
          request_interceptor c (w\<lparr>requests := requests w + 1\<rparr>) = (processedConfig, w1) \<and>
          request c w = executeRequest processedConfig w1) \<and>
      heap (snd (request c w)) = heap w \<and>
      circuitBreakers (snd (request c w)) = circuitBreakers w \<and>
      (\<exists>rest. fetched (snd (request c w)) = fetched w @ url c # rest) \<and>
      fst (request c w) \<noteq> Inl circuit_open_error"
    if none: "circuitBreakers w (getServiceFromUrl (url c)) = None"
  proof -
    obtain pc w1 where ri: "request_interceptor c (w\<lparr>requests := requests w + 1\<rparr>) = (pc, w1)"
      by fastforce
    from request_interceptor_frame[OF ri] none
    have none1: "circuitBreakers w1 (getServiceFromUrl (url pc)) = None" by simp
    have "request c w = executeRequest pc w1"
      by (simp only: request.simps[of c w] ri prod.case none1 option.case)
    with ri unknown_service_frame(1)[of w c] none show ?thesis by blast
  qed
  from a b c d e show ?thesis by blast
qed

theorem unknown_service_bypasses_breakers_witness:
  "getServiceFromUrl ''/health'' = ''unknown'' \<and>
   state (heap all_open_client 0) = OPEN \<and>
   heap (snd (request health_config all_open_client)) = heap all_open_client \<and>
   fst (request health_config all_open_client) \<noteq> Inl circuit_open_error \<and>
   take 1 (fetched (snd (request health_config all_open_client))) = [''/health''] \<and>
   fst (request products_config all_open_client) = Inl circuit_open_error"
proof -
  have h: "\<not> includes_str ''/health'' ''/products'' \<and> \<not> includes_str ''/health'' ''/auth'' \<and>
           \<not> includes_str ''/health'' ''/orders''" by simp
  note t = unknown_service_bypasses_breakers[of "answering (response 503)" "''/health''"
      all_open_client health_config]
  from t h have a: "getServiceFromUrl ''/health'' = ''unknown''" by blast
  have cb: "circuitBreakers all_open_client = circuitBreakers (new_APIClient (answering (response 503)))"
    by (simp add: all_open_client_def)
  have u: "url health_config = ''/health''" by (simp add: health_config_def)
  from t h have "circuitBreakers all_open_client (getServiceFromUrl (url health_config)) = None"
    unfolding cb u by blast
  with t have b: "heap (snd (request health_config all_open_client)) = heap all_open_client"
    and c: "fst (request health_config all_open_client) \<noteq> Inl circuit_open_error"
    and d: "\<exists>rest. fetched (snd (request health_config all_open_client)) =
               fetched all_open_client @ url health_config # rest" by blast+
  have f0: "fetched all_open_client = []"
    by (simp add: all_open_client_def new_APIClient_def initializeCircuitBreakers_def answering_def)
  from d have d': "take 1 (fetched (snd (request health_config all_open_client))) = [''/health'']"
    by (auto simp: f0 u)
  have o: "state (heap all_open_client 0) = OPEN"
    by (simp add: all_open_client_def new_CircuitBreaker_def onFailure_def Let_def)
  have p: "fst (request products_config all_open_client) = Inl circuit_open_error"
    by (simp add: request.simps all_open_client_def client_defs Let_def)
  show ?thesis using a o b c d' p by blast
qed

end
